theory Spec2Isabelle
  imports Complex_Main
begin

section \<open>Text\<close>

text \<open>
  A Python \<open>str\<close> is a sequence of Unicode code points; it is modelled as a list of
  natural numbers, one per code point. The Cyrillic literals of \<open>bot.py\<close> are written out
  as their code points.

  The character classes follow Python's \<open>re\<close> for \<open>str\<close> patterns and \<open>str.isspace\<close>.
  Whitespace is the full set of \<open>str.isspace\<close>. Decimal digits are the ASCII digits and word
  characters are ASCII letters, digits, the underscore and the Cyrillic letters; \<open>py_lower\<close>
  maps the ASCII capitals and the Cyrillic capitals from U+0400 to U+042F. Decimal digits,
  letters and capitals of other scripts are outside the model.
\<close>

type_synonym str = "nat list"

definition is_space :: "nat \<Rightarrow> bool" where
  "is_space c \<longleftrightarrow>
     (9 \<le> c \<and> c \<le> 13) \<or> (28 \<le> c \<and> c \<le> 32) \<or> c = 133 \<or> c = 160 \<or> c = 5760 \<or>
     (8192 \<le> c \<and> c \<le> 8202) \<or> c = 8232 \<or> c = 8233 \<or> c = 8239 \<or> c = 8287 \<or> c = 12288"

definition is_digit :: "nat \<Rightarrow> bool" where
  "is_digit c \<longleftrightarrow> 48 \<le> c \<and> c \<le> 57"

definition is_word :: "nat \<Rightarrow> bool" where
  "is_word c \<longleftrightarrow>
     is_digit c \<or> (65 \<le> c \<and> c \<le> 90) \<or> c = 95 \<or> (97 \<le> c \<and> c \<le> 122) \<or>
     (1024 \<le> c \<and> c \<le> 1153) \<or> (1162 \<le> c \<and> c \<le> 1327)"

definition lower_char :: "nat \<Rightarrow> nat" where
  "lower_char c =
     (if 65 \<le> c \<and> c \<le> 90 then c + 32
      else if 1040 \<le> c \<and> c \<le> 1071 then c + 32
      else if 1024 \<le> c \<and> c \<le> 1039 then c + 80
      else c)"

definition py_lower :: "str \<Rightarrow> str" where
  "py_lower s = map lower_char s"

text \<open>\<open>sub in s\<close>: the substring test.\<close>

fun contains :: "str \<Rightarrow> str \<Rightarrow> bool" where
  "contains sub [] = (sub = [])"
| "contains sub (c # cs) = (take (length sub) (c # cs) = sub \<or> contains sub cs)"

text \<open>\<open>s.strip()\<close>: leading and trailing whitespace removed.\<close>

definition strip :: "str \<Rightarrow> str" where
  "strip s = rev (dropWhile is_space (rev (dropWhile is_space s)))"

text \<open>\<open>int(s)\<close> on a string of decimal digits. A Python version that limits the length
  of a decimal string that \<open>int\<close> converts (4300 digits by default) raises on a longer
  one; the model has no such limit.\<close>

definition int_of_digits :: "str \<Rightarrow> int" where
  "int_of_digits s = foldl (\<lambda>acc c. 10 * acc + (int c - 48)) 0 s"

text \<open>ASCII text is written as an Isabelle string and converted.\<close>

definition ascii :: "string \<Rightarrow> str" where
  "ascii s = map of_char s"

subsection \<open>Regular expressions\<close>

text \<open>
  The patterns of \<open>bot.py\<close> are sequences of literals, greedy \<open>c*\<close> over a character
  class and captured greedy groups \<open>(c+)\<close> over a character class. \<open>rmatch\<close> is the
  backtracking matcher anchored at the start of the text: a quantifier first takes the
  longest run of its class and gives characters back one by one while the rest of the
  pattern fails. It returns the captured groups. \<open>re_search\<close> tries every start position
  from left to right, as \<open>re.search\<close> does.
\<close>

datatype atom = Lit str | Star "nat \<Rightarrow> bool" | Group "nat \<Rightarrow> bool"

primrec first_some :: "('a \<Rightarrow> 'b option) \<Rightarrow> 'a list \<Rightarrow> 'b option" where
  "first_some f [] = None"
| "first_some f (x # xs) = (case f x of Some r \<Rightarrow> Some r | None \<Rightarrow> first_some f xs)"

text \<open>\<open>literal l s\<close> is the rest of \<open>s\<close> after the prefix \<open>l\<close>, if \<open>s\<close> starts with it.\<close>

fun literal :: "str \<Rightarrow> str \<Rightarrow> str option" where
  "literal [] s = Some s"
| "literal (a # l) [] = None"
| "literal (a # l) (x # xs) = (if a = x then literal l xs else None)"

text \<open>\<open>runs c s\<close> lists the ways to split \<open>s\<close> into a run of characters of class \<open>c\<close> and
  the rest, the longest run first: the order in which a greedy quantifier tries them.\<close>

fun runs :: "(nat \<Rightarrow> bool) \<Rightarrow> str \<Rightarrow> (str \<times> str) list" where
  "runs c [] = [([], [])]"
| "runs c (x # xs) =
     (if c x then map (\<lambda>(p, r). (x # p, r)) (runs c xs) @ [([], x # xs)]
      else [([], x # xs)])"

fun rmatch :: "atom list \<Rightarrow> str \<Rightarrow> str list option" where
  "rmatch [] s = Some []"
| "rmatch (Lit l # as) s =
     (case literal l s of None \<Rightarrow> None | Some r \<Rightarrow> rmatch as r)"
| "rmatch (Star c # as) s = first_some (\<lambda>(p, r). rmatch as r) (runs c s)"
| "rmatch (Group c # as) s =
     first_some (\<lambda>(p, r). map_option (\<lambda>gs. p # gs) (rmatch as r))
       (filter (\<lambda>(p, r). p \<noteq> []) (runs c s))"

fun re_search :: "atom list \<Rightarrow> str \<Rightarrow> str list option" where
  "re_search p [] = rmatch p []"
| "re_search p (c # cs) =
     (case rmatch p (c # cs) of Some gs \<Rightarrow> Some gs | None \<Rightarrow> re_search p cs)"

text \<open>The label of a purchase line (the Russian word for purchase in capitals, then a
  colon) and the pattern \<open>label\s*([^|]+)\|\s*(\d+)\|\s*(\w+)\|\s*(.+)\<close> of
  \<open>process_action\<close>; the pipe is code point 124 and \<open>.\<close> is every character but the
  newline, code point 10.\<close>

definition purchase_label :: str where
  "purchase_label = [1055, 1054, 1050, 1059, 1055, 1050, 1040, 58]"

definition purchase_pattern :: "atom list" where
  "purchase_pattern =
     [Lit purchase_label, Star is_space, Group (\<lambda>c. c \<noteq> 124), Lit [124],
      Star is_space, Group is_digit, Lit [124],
      Star is_space, Group is_word, Lit [124],
      Star is_space, Group (\<lambda>c. c \<noteq> 10)]"

text \<open>The pattern \<open>r'(\d+)'\<close> of the stat inference.\<close>

definition digits_pattern :: "atom list" where
  "digits_pattern = [Group is_digit]"

section \<open>Data model\<close>

record Character =
  user_id :: int
  name :: str
  level :: int
  hp :: int
  max_hp :: int
  armor :: int
  strength :: int
  agility :: int
  intelligence :: int
  experience :: int
  gold :: int
  current_location :: str
  location_state :: str
  equipped_weapon :: str
  equipped_armor :: str

record Item =
  name :: str
  type :: str
  damage :: int
  armor_bonus :: int
  heal :: int
  description :: str
  item_id :: str

record Enemy =
  name :: str
  hp :: int
  max_hp :: int
  armor :: int
  damage :: int
  experience_reward :: int
  gold_reward :: int

text \<open>The constructors with the default values of the dataclasses.\<close>

definition start_village :: str where
  "start_village =
     [1053, 1072, 1095, 1072, 1083, 1100, 1085, 1072, 1103, 32,
      1076, 1077, 1088, 1077, 1074, 1085, 1103]"

definition new_Character :: "int \<Rightarrow> str \<Rightarrow> Character" where
  "new_Character uid nm =
     \<lparr>user_id = uid, Character.name = nm, level = 1, Character.hp = 100,
      Character.max_hp = 100, Character.armor = 5, strength = 10, agility = 10,
      intelligence = 10, experience = 0, gold = 50, current_location = start_village,
      location_state = [], equipped_weapon = [], equipped_armor = []\<rparr>"

definition new_Item :: "str \<Rightarrow> str \<Rightarrow> int \<Rightarrow> int \<Rightarrow> int \<Rightarrow> str \<Rightarrow> Item" where
  "new_Item nm ty dmg arm hl descr =
     \<lparr>Item.name = nm, type = ty, Item.damage = dmg, armor_bonus = arm, heal = hl,
      description = descr, item_id = []\<rparr>"


section \<open>The database\<close>

text \<open>
  The three tables of \<open>Database.create_tables\<close> are lists of rows in insertion order.
  \<open>characters\<close> and \<open>active_battles\<close> have the primary key \<open>user_id\<close>; their writes are
  the upserts \<open>INSERT ... ON CONFLICT (user_id) DO UPDATE\<close> of \<open>save_character\<close> and
  \<open>save_battle\<close>, written out on the rows. \<open>inventory\<close> and \<open>active_battles\<close> reference
  \<open>characters\<close>: an insert for a player without a character row is refused. The JSON
  text of the \<open>item_data\<close> and \<open>enemy_data\<close> columns is modelled by the value it encodes.
  Connection failures and the range of the \<open>INTEGER\<close> columns are outside the model.
\<close>

datatype error = AttributeError | KeyError | ForeignKeyViolation | OverflowError

record database =
  characters :: "Character list"
  inventory :: "(int \<times> Item) list"
  active_battles :: "(int \<times> Enemy) list"

definition empty_database :: database where
  "empty_database = \<lparr>characters = [], inventory = [], active_battles = []\<rparr>"

definition get_character :: "database \<Rightarrow> int \<Rightarrow> Character option" where
  "get_character db uid = find (\<lambda>r. user_id r = uid) (characters db)"

definition save_character :: "database \<Rightarrow> Character \<Rightarrow> database" where
  "save_character db char =
     db\<lparr>characters :=
          (if \<exists>r \<in> set (characters db). user_id r = user_id char
           then map (\<lambda>r. if user_id r = user_id char then char else r) (characters db)
           else characters db @ [char])\<rparr>"

definition add_item :: "database \<Rightarrow> int \<Rightarrow> Item \<Rightarrow> error + database" where
  "add_item db uid item =
     (if get_character db uid = None then Inl ForeignKeyViolation
      else Inr (db\<lparr>inventory := inventory db @ [(uid, item)]\<rparr>))"

definition get_inventory :: "database \<Rightarrow> int \<Rightarrow> Item list" where
  "get_inventory db uid = map snd (filter (\<lambda>r. fst r = uid) (inventory db))"

definition save_battle :: "database \<Rightarrow> int \<Rightarrow> Enemy \<Rightarrow> error + database" where
  "save_battle db uid enemy =
     (if get_character db uid = None then Inl ForeignKeyViolation
      else Inr (db\<lparr>active_battles :=
          (if \<exists>r \<in> set (active_battles db). fst r = uid
           then map (\<lambda>r. if fst r = uid then (uid, enemy) else r) (active_battles db)
           else active_battles db @ [(uid, enemy)])\<rparr>))"

definition get_battle :: "database \<Rightarrow> int \<Rightarrow> Enemy option" where
  "get_battle db uid = map_option snd (find (\<lambda>r. fst r = uid) (active_battles db))"

definition clear_battle :: "database \<Rightarrow> int \<Rightarrow> database" where
  "clear_battle db uid =
     db\<lparr>active_battles := filter (\<lambda>r. fst r \<noteq> uid) (active_battles db)\<rparr>"

section \<open>The generator's answers\<close>

text \<open>
  The text generator is an external service: what it answers is an input of the model.
  \<open>generate_enemy\<close> and \<open>calculate_damage\<close> search the answer for a JSON object and parse
  it; the model takes the outcome of that step, \<open>None\<close> when no object was found or it did
  not parse, and otherwise the parsed dictionary with each key present or absent. The
  numbers of a dictionary are taken to be integers.
\<close>

record enemy_json =
  js_name :: "str option"
  js_hp :: "int option"
  js_armor :: "int option"
  js_damage :: "int option"
  js_description :: "str option"

record enemy_data =
  d_name :: str
  d_hp :: int
  d_armor :: int
  d_damage :: int
  d_description :: str

definition unknown_enemy :: str where
  "unknown_enemy =
     [1053, 1077, 1080, 1079, 1074, 1077, 1089, 1090, 1085, 1099, 1081, 32,
      1074, 1088, 1072, 1075]"

definition wild_wolf :: str where
  "wild_wolf = [1044, 1080, 1082, 1080, 1081, 32, 1074, 1086, 1083, 1082]"

definition aggressive_predator :: str where
  "aggressive_predator =
     [1040, 1075, 1088, 1077, 1089, 1089, 1080, 1074, 1085, 1099, 1081, 32,
      1093, 1080, 1097, 1085, 1080, 1082]"

definition generate_enemy :: "int \<Rightarrow> str \<Rightarrow> enemy_json option \<Rightarrow> enemy_data" where
  "generate_enemy lvl location parsed =
     (case parsed of
        Some js \<Rightarrow>
          \<lparr>d_name = (case js_name js of Some v \<Rightarrow> v | None \<Rightarrow> unknown_enemy),
           d_hp = (case js_hp js of Some v \<Rightarrow> v | None \<Rightarrow> 50),
           d_armor = (case js_armor js of Some v \<Rightarrow> v | None \<Rightarrow> 5),
           d_damage = (case js_damage js of Some v \<Rightarrow> v | None \<Rightarrow> 10),
           d_description = (case js_description js of Some v \<Rightarrow> v | None \<Rightarrow> [])\<rparr>
      | None \<Rightarrow>
          \<lparr>d_name = wild_wolf, d_hp = 50 + lvl * 20, d_armor = lvl * 3,
           d_damage = 5 + lvl * 3, d_description = aggressive_predator\<rparr>)"

record judgement =
  j_damage :: "int option"
  j_critical :: "bool option"
  j_description :: "str option"

text \<open>
  The fallback of \<open>calculate_damage\<close> computes in double precision. Every number that
  occurs there is an integer multiple of \<open>2 ^ -54\<close>: the integers, the constants \<open>1.5\<close> and
  \<open>0.3\<close> (the double nearest to three tenths is \<open>5404319552844595 / 2 ^ 54\<close>), their
  products and the difference. On such a number \<open>fl\<close> is the rounding of the arithmetic:
  to 53 significant bits, to the nearest, a tie to the even neighbour; \<open>None\<close> stands
  for a result too large for a double.

  \<open>shift53 n\<close> is the number of low bits that \<open>n\<close> has beyond 53, and \<open>round53 n\<close> rounds
  the integer \<open>n\<close> to a multiple of \<open>2 ^ shift53 n\<close>.
\<close>

function shift53 :: "int \<Rightarrow> nat" where
  "shift53 n = (if \<bar>n\<bar> < 2 ^ 53 then 0 else Suc (shift53 (\<bar>n\<bar> div 2)))"
  by pat_completeness auto
termination
  by (relation "measure (\<lambda>n. nat \<bar>n\<bar>)") auto

declare shift53.simps [simp del]

definition round53 :: "int \<Rightarrow> int" where
  "round53 n =
     (let s = shift53 n;
          q = \<bar>n\<bar> div 2 ^ s;
          r = \<bar>n\<bar> mod 2 ^ s;
          q1 = (if 2 ^ s < 2 * r \<or> (2 * r = 2 ^ s \<and> odd q) then q + 1 else q)
      in sgn n * (q1 * 2 ^ s))"

definition fl :: "rat \<Rightarrow> rat option" where
  "fl x =
     (let r = round53 \<lfloor>x * 2 ^ 54\<rfloor>
      in if 2 ^ 1078 \<le> \<bar>r\<bar> then None else Some (of_int r / 2 ^ 54))"

definition double_0_3 :: rat where
  "double_0_3 = 5404319552844595 / 2 ^ 54"

text \<open>\<open>int(x)\<close> on a number truncates towards zero.\<close>

definition py_int :: "rat \<Rightarrow> int" where
  "py_int x = (if x < 0 then \<lceil>x\<rceil> else \<lfloor>x\<rfloor>)"

text \<open>
  The expression \<open>int(base_damage * (1.5 if critical else 1) - enemy.armor * 0.3)\<close> of
  line 308. An integer is converted to a double where it meets one: \<open>base_damage\<close> before
  the product with \<open>1.5\<close>, or before the subtraction when the factor is the integer \<open>1\<close>,
  and the armor before the product with \<open>0.3\<close>. The conversion of an integer that is too
  large raises \<open>OverflowError\<close>; a product or difference that is too large is infinite, no
  operand here is infinite twice, and \<open>int\<close> of an infinite number raises \<open>OverflowError\<close>
  as well. So \<open>None\<close> is \<open>OverflowError\<close> wherever it arises.
\<close>

definition fallback_number :: "int \<Rightarrow> bool \<Rightarrow> int \<Rightarrow> int option" where
  "fallback_number base_damage crit arm =
     (case (if crit then Option.bind (fl (of_int base_damage)) (\<lambda>b. fl (b * (3 / 2)))
            else fl (of_int base_damage)) of
        None \<Rightarrow> None
      | Some m \<Rightarrow>
          (case Option.bind (fl (of_int arm)) (\<lambda>a. fl (a * double_0_3)) of
             None \<Rightarrow> None
           | Some p \<Rightarrow> map_option py_int (fl (m - p))))"

definition kw_crit :: str where
  "kw_crit = [1082, 1088, 1080, 1090]"

definition kw_precisely :: str where
  "kw_precisely = [1090, 1086, 1095, 1085, 1086]"

definition hit_lands :: str where
  "hit_lands =
     [1059, 1076, 1072, 1088, 32, 1076, 1086, 1089, 1090, 1080, 1075, 1072, 1077, 1090,
      32, 1094, 1077, 1083, 1080, 33]"

definition calculate_damage :: "str \<Rightarrow> Character \<Rightarrow> Enemy \<Rightarrow> judgement option \<Rightarrow> error + judgement" where
  "calculate_damage action char enemy parsed =
     (case parsed of
        Some j \<Rightarrow> Inr j
      | None \<Rightarrow>
          (let base_damage = strength char + (agility char div 2);
               crit = (contains kw_crit (py_lower action) \<or>
                       contains kw_precisely (py_lower action))
           in case fallback_number base_damage crit (Enemy.armor enemy) of
                None \<Rightarrow> Inl OverflowError
              | Some dmg \<Rightarrow>
                  Inr \<lparr>j_damage = Some (max 1 dmg), j_critical = Some crit,
                       j_description = Some hit_lands\<rparr>))"

section \<open>The game engine\<close>

subsection \<open>Creating a character\<close>

definition rusty_sword :: str where
  "rusty_sword = [1056, 1078, 1072, 1074, 1099, 1081, 32, 1084, 1077, 1095]"

definition old_sword :: str where
  "old_sword = [1057, 1090, 1072, 1088, 1099, 1081, 32, 1084, 1077, 1095]"

definition leather_armor :: str where
  "leather_armor =
     [1050, 1086, 1078, 1072, 1085, 1072, 1103, 32, 1073, 1088, 1086, 1085, 1103]"

definition simple_armor :: str where
  "simple_armor =
     [1055, 1088, 1086, 1089, 1090, 1072, 1103, 32, 1073, 1088, 1086, 1085, 1103]"

definition healing_potion :: str where
  "healing_potion =
     [1047, 1077, 1083, 1100, 1077, 32, 1083, 1077, 1095, 1077, 1085, 1080, 1103]"

definition restores_30_hp :: str where
  "restores_30_hp =
     [1042, 1086, 1089, 1089, 1090, 1072, 1085, 1072, 1074, 1083, 1080, 1074, 1072,
      1077, 1090, 32, 51, 48, 32, 72, 80]"

definition create_character :: "database \<Rightarrow> int \<Rightarrow> str \<Rightarrow> error + (database \<times> Character)" where
  "create_character db uid nm =
     (let char = new_Character uid nm;
          db1 = save_character db char
      in case add_item db1 uid (new_Item rusty_sword (ascii ''weapon'') 5 0 0 old_sword) of
           Inl e \<Rightarrow> Inl e
         | Inr db2 \<Rightarrow>
         (case add_item db2 uid (new_Item leather_armor (ascii ''armor'') 0 3 0 simple_armor) of
           Inl e \<Rightarrow> Inl e
         | Inr db3 \<Rightarrow>
         (case add_item db3 uid
                 (new_Item healing_potion (ascii ''potion'') 0 0 30 restores_30_hp) of
           Inl e \<Rightarrow> Inl e
         | Inr db4 \<Rightarrow> Inr (db4, char))))"

subsection \<open>Actions and purchases\<close>

datatype purchase_info =
    PurchaseSuccess str int int
  | PurchaseFailure str int int

text \<open>\<open>PurchaseSuccess item price gold_left\<close> and \<open>PurchaseFailure item price gold_needed\<close>
  are the two dictionaries of \<open>purchase_info\<close>.\<close>

record action_result =
  result_text :: str
  has_enemy :: bool
  purchase :: "purchase_info option"

definition kw_uron :: str where
  "kw_uron = [1091, 1088, 1086, 1085]"

definition kw_bronya :: str where
  "kw_bronya = [1073, 1088, 1086, 1085, 1103]"

definition kw_lechenie :: str where
  "kw_lechenie = [1083, 1077, 1095, 1077, 1085, 1080, 1077]"

definition enemy_marker :: str where
  "enemy_marker = [1042, 1056, 1040, 1043, 58]"

definition kw_vrag :: str where
  "kw_vrag = [1074, 1088, 1072, 1075]"

definition aggression_verbs :: "str list" where
  "aggression_verbs =
     [[1085, 1072, 1087, 1072, 1076, 1072, 1077, 1090],
      [1072, 1090, 1072, 1082, 1091, 1077, 1090],
      [1073, 1088, 1086, 1089, 1072, 1077, 1090, 1089, 1103],
      [1074, 1099, 1089, 1082, 1072, 1082, 1080, 1074, 1072, 1077, 1090]]"

text \<open>\<open>re.search(r'(\d+)', stats)\<close> followed by \<open>int\<close> of the group, as each of the three
  branches of the stat inference does.\<close>

definition first_int :: "str \<Rightarrow> int option" where
  "first_int stats =
     (case re_search digits_pattern stats of
        Some (g # gs) \<Rightarrow> Some (int_of_digits g)
      | _ \<Rightarrow> None)"

text \<open>The three \<open>if\<close> statements of the stat inference (lines 374 to 391), giving
  \<open>damage\<close>, \<open>armor_bonus\<close> and \<open>heal\<close>.\<close>

definition infer_stats :: "str \<Rightarrow> int \<times> int \<times> int" where
  "infer_stats stats =
     (let dmg = (if contains kw_uron (py_lower stats) \<or>
                    contains (ascii ''damage'') (py_lower stats)
                 then (case first_int stats of Some n \<Rightarrow> n | None \<Rightarrow> 0) else 0);
          arm = (if contains kw_bronya (py_lower stats) \<or>
                    contains (ascii ''armor'') (py_lower stats)
                 then (case first_int stats of Some n \<Rightarrow> n | None \<Rightarrow> 0) else 0);
          hl = (if contains kw_lechenie (py_lower stats) \<or>
                   contains (ascii ''heal'') (py_lower stats) \<or>
                   contains (ascii ''hp'') (py_lower stats)
                then (case first_int stats of Some n \<Rightarrow> n | None \<Rightarrow> 0) else 0)
      in (dmg, arm, hl))"

text \<open>The purchase branch of \<open>process_action\<close> (lines 365 to 417) on the four groups of
  the match.\<close>

definition purchase_branch ::
  "database \<Rightarrow> int \<Rightarrow> Character \<Rightarrow> str \<Rightarrow> str \<Rightarrow> str \<Rightarrow> str
     \<Rightarrow> error + (database \<times> purchase_info option)" where
  "purchase_branch db uid char g1 g2 g3 g4 =
     (let item_name = strip g1;
          price = int_of_digits g2;
          item_type = strip g3;
          stats = strip g4
      in if gold char \<ge> price then
           (let char1 = char\<lparr>gold := gold char - price\<rparr>;
                (dmg, arm, hl) = infer_stats stats;
                new_item = new_Item item_name item_type dmg arm hl stats
            in case add_item db uid new_item of
                 Inl e \<Rightarrow> Inl e
               | Inr db1 \<Rightarrow>
                   Inr (save_character db1 char1,
                        Some (PurchaseSuccess item_name price (gold char1))))
         else Inr (db, Some (PurchaseFailure item_name price (price - gold char))))"

text \<open>\<open>reply\<close> is the generator's answer to the prompt built from the character and the
  action.\<close>

definition process_action :: "database \<Rightarrow> int \<Rightarrow> str \<Rightarrow> str \<Rightarrow> error + (database \<times> action_result)" where
  "process_action db uid action reply =
     (case get_character db uid of
        None \<Rightarrow> Inl AttributeError
      | Some char \<Rightarrow>
          (case (case re_search purchase_pattern reply of
                   Some [g1, g2, g3, g4] \<Rightarrow> purchase_branch db uid char g1 g2 g3 g4
                 | _ \<Rightarrow> Inr (db, None)) of
             Inl e \<Rightarrow> Inl e
           | Inr (db1, purchase_info) \<Rightarrow>
               Inr (db1,
                 \<lparr>result_text = reply,
                  has_enemy = (contains enemy_marker reply \<or>
                     (contains kw_vrag (py_lower reply) \<and>
                      (\<exists>word \<in> set aggression_verbs. contains word (py_lower reply)))),
                  purchase = purchase_info\<rparr>)))"

subsection \<open>Battles\<close>

definition start_battle :: "database \<Rightarrow> int \<Rightarrow> enemy_json option \<Rightarrow> error + (database \<times> Character \<times> Enemy)" where
  "start_battle db uid parsed =
     (case get_character db uid of
        None \<Rightarrow> Inl AttributeError
      | Some char \<Rightarrow>
          (let data = generate_enemy (level char) (current_location char) parsed;
               enemy = \<lparr>Enemy.name = d_name data, hp = d_hp data, max_hp = d_hp data,
                        armor = d_armor data, damage = d_damage data,
                        experience_reward = 20 * level char,
                        gold_reward = 10 * level char\<rparr>
           in case save_battle db uid enemy of
                Inl e \<Rightarrow> Inl e
              | Inr db1 \<Rightarrow> Inr (db1, char, enemy)))"

record attack_result =
  player_damage :: int
  attack_description :: str
  critical :: bool
  enemy_defeated :: bool
  level_up :: bool
  rewards :: "(int \<times> int) option"
  enemy_damage :: "int option"
  enemy_hp :: "int option"
  player_defeated :: bool

text \<open>The keys \<open>level_up\<close> and \<open>player_defeated\<close> are only ever set to \<open>True\<close>; the model
  has \<open>False\<close> for an absent key. \<open>rewards\<close> is the pair of \<open>exp\<close> and \<open>gold\<close>.\<close>

datatype attack_response = ErrorDict str | ResultDict attack_result

definition no_active_battle :: str where
  "no_active_battle =
     [1053, 1077, 1090, 32, 1072, 1082, 1090, 1080, 1074, 1085, 1086, 1075, 1086, 32,
      1073, 1086, 1103]"

text \<open>The victory branch (lines 462 to 481).\<close>

definition victory :: "database \<Rightarrow> int \<Rightarrow> Character \<Rightarrow> Enemy \<Rightarrow> attack_result \<Rightarrow> database \<times> attack_result" where
  "victory db uid char enemy result =
     (let char1 = char\<lparr>experience := experience char + experience_reward enemy,
                       gold := gold char + gold_reward enemy\<rparr>;
          exp_needed = level char1 * 100;
          char2 = (if experience char1 \<ge> exp_needed
                   then char1\<lparr>level := level char1 + 1,
                              Character.max_hp := Character.max_hp char1 + 20,
                              Character.hp := Character.max_hp char1 + 20,
                              strength := strength char1 + 2,
                              agility := agility char1 + 2\<rparr>
                   else char1);
          result1 = (if experience char1 \<ge> exp_needed then result\<lparr>level_up := True\<rparr>
                     else result);
          db1 = save_character db char2;
          db2 = clear_battle db1 uid
      in (db2, result1\<lparr>rewards := Some (experience_reward enemy, gold_reward enemy)\<rparr>))"

text \<open>The counterattack branch (lines 483 to 497); \<open>enemy\<close> has its hit points already
  reduced.\<close>

definition counterattack :: "database \<Rightarrow> int \<Rightarrow> Character \<Rightarrow> Enemy \<Rightarrow> attack_result \<Rightarrow> error + (database \<times> attack_result)" where
  "counterattack db uid char enemy result =
     (let enemy_dmg = max 1 (Enemy.damage enemy - Character.armor char);
          char1 = char\<lparr>Character.hp := Character.hp char - enemy_dmg\<rparr>;
          result1 = result\<lparr>enemy_damage := Some enemy_dmg, enemy_hp := Some (Enemy.hp enemy)\<rparr>
      in if Character.hp char1 \<le> 0 then
           (let char2 = char1\<lparr>Character.hp := Character.max_hp char1 div 2,
                              gold := max 0 (gold char1 - 20)\<rparr>;
                db1 = clear_battle db uid
            in Inr (save_character db1 char2, result1\<lparr>player_defeated := True\<rparr>))
         else
           (case save_battle db uid enemy of
              Inl e \<Rightarrow> Inl e
            | Inr db1 \<Rightarrow> Inr (save_character db1 char1, result1)))"

text \<open>\<open>parsed\<close> is the judgement parsed from the generator's answer, \<open>None\<close> when there is
  none. A character that is missing raises when its strength is read for the prompt, the
  fallback can raise \<open>OverflowError\<close>, an answer without the key \<open>damage\<close> or
  \<open>description\<close> raises when the key is read; nothing has been written by then.\<close>

definition process_attack :: "database \<Rightarrow> int \<Rightarrow> str \<Rightarrow> judgement option \<Rightarrow> error + (database \<times> attack_response)" where
  "process_attack db uid action parsed =
     (let char_opt = get_character db uid;
          enemy_opt = get_battle db uid
      in case enemy_opt of
           None \<Rightarrow> Inr (db, ErrorDict no_active_battle)
         | Some enemy \<Rightarrow>
         (case char_opt of
           None \<Rightarrow> Inl AttributeError
         | Some char \<Rightarrow>
         (case calculate_damage action char enemy parsed of
            Inl e \<Rightarrow> Inl e
          | Inr attack \<Rightarrow>
            (case j_damage attack of
               None \<Rightarrow> Inl KeyError
             | Some dmg \<Rightarrow>
             (let enemy1 = enemy\<lparr>Enemy.hp := Enemy.hp enemy - dmg\<rparr>
              in case j_description attack of
                   None \<Rightarrow> Inl KeyError
                 | Some descr \<Rightarrow>
                 (let result =
                        \<lparr>player_damage = dmg, attack_description = descr,
                         critical = (case j_critical attack of Some b \<Rightarrow> b | None \<Rightarrow> False),
                         enemy_defeated = (Enemy.hp enemy1 \<le> 0),
                         level_up = False, rewards = None, enemy_damage = None,
                         enemy_hp = None, player_defeated = False\<rparr>
                  in if Enemy.hp enemy1 \<le> 0 then
                       (case victory db uid char enemy1 result of
                          (db1, result1) \<Rightarrow> Inr (db1, ResultDict result1))
                     else
                       (case counterattack db uid char enemy1 result of
                          Inl e \<Rightarrow> Inl e
                        | Inr (db1, result1) \<Rightarrow> Inr (db1, ResultDict result1))))))))"


section \<open>Invariants and sample states\<close>

text \<open>The invariant of a character: hit points between zero and the maximum, gold not
  negative, level at least one.\<close>

definition char_inv :: "Character \<Rightarrow> bool" where
  "char_inv c \<longleftrightarrow>
     0 \<le> Character.hp c \<and> Character.hp c \<le> Character.max_hp c \<and> 0 \<le> gold c \<and> 1 \<le> level c"

text \<open>The invariant of the database: every character row satisfies \<open>char_inv\<close>, and no
  stored enemy has a negative gold reward.\<close>

definition db_inv :: "database \<Rightarrow> bool" where
  "db_inv db \<longleftrightarrow>
     (\<forall>c \<in> set (characters db). char_inv c) \<and>
     (\<forall>r \<in> set (active_battles db). 0 \<le> gold_reward (snd r))"

text \<open>The enemies stored for a player, and the primary key of \<open>active_battles\<close>.\<close>

definition stored_enemies :: "database \<Rightarrow> int \<Rightarrow> Enemy list" where
  "stored_enemies db uid = map snd (filter (\<lambda>r. fst r = uid) (active_battles db))"

definition one_battle_each :: "database \<Rightarrow> bool" where
  "one_battle_each db \<longleftrightarrow> distinct (map fst (active_battles db))"

text \<open>Sample states: a fresh character, the same character close to the second level, an
  enemy with armor 5, a database without a battle and one with a battle.\<close>

definition hero :: Character where
  "hero = new_Character 7 (ascii ''Bob'')"

definition veteran :: Character where
  "veteran = hero\<lparr>experience := 90\<rparr>"

definition bandit :: Enemy where
  "bandit = \<lparr>Enemy.name = ascii ''Bandit'', hp = 60, max_hp = 60, armor = 5, damage = 12,
             experience_reward = 20, gold_reward = 10\<rparr>"

definition village_db :: database where
  "village_db = \<lparr>characters = [hero], inventory = [], active_battles = []\<rparr>"

definition battle_db :: database where
  "battle_db = \<lparr>characters = [veteran], inventory = [], active_battles = [(7, bandit)]\<rparr>"

definition sample_judgement :: "int \<Rightarrow> judgement" where
  "sample_judgement d =
     \<lparr>j_damage = Some d, j_critical = Some False, j_description = Some (ascii ''ok'')\<rparr>"

text \<open>A character in the middle of a scene, with better armor, and a database in which
  that character fights the bandit.\<close>

definition explorer :: Character where
  "explorer = hero\<lparr>Character.armor := 8, location_state := ascii ''A market square.''\<rparr>"

definition market_db :: database where
  "market_db = \<lparr>characters = [explorer], inventory = [], active_battles = [(7, bandit)]\<rparr>"

section \<open>Reading and writing the tables\<close>

lemma find_user_id: "find (\<lambda>r. user_id r = uid) cs = Some c \<Longrightarrow> user_id c = uid \<and> c \<in> set cs"
  by (induction cs) (auto split: if_splits)

lemma get_character_user_id: "get_character db uid = Some c \<Longrightarrow> user_id c = uid"
  unfolding get_character_def by (auto dest: find_user_id)

lemma get_character_mem: "get_character db uid = Some c \<Longrightarrow> c \<in> set (characters db)"
  unfolding get_character_def by (auto dest: find_user_id)

lemma find_map_upsert:
  "k x = u \<Longrightarrow>
   find (\<lambda>r. k r = uid) (map (\<lambda>r. if k r = u then x else r) rs) =
     (if uid = u then (if \<exists>r \<in> set rs. k r = u then Some x else None)
      else find (\<lambda>r. k r = uid) rs)"
proof (induction rs)
  case Nil
  then show ?case by simp
next
  case (Cons a rs)
  then show ?case by (cases "k a = u") auto
qed

lemma find_append_row:
  "find P (rs @ [x]) =
     (case find P rs of Some y \<Rightarrow> Some y | None \<Rightarrow> if P x then Some x else None)"
  by (induction rs) auto

lemma find_None_key: "(find (\<lambda>r. k r = u) rs = None) = (\<forall>r \<in> set rs. k r \<noteq> u)"
  by (induction rs) auto

lemma find_upsert:
  assumes "k x = u"
  shows "find (\<lambda>r. k r = uid)
     (if \<exists>r \<in> set rs. k r = u
      then map (\<lambda>r. if k r = u then x else r) rs else rs @ [x])
   = (if uid = u then Some x else find (\<lambda>r. k r = uid) rs)"
proof (cases "\<exists>r \<in> set rs. k r = u")
  case True
  then show ?thesis using assms by (simp add: find_map_upsert)
next
  case False
  then have "find (\<lambda>r. k r = u) rs = None" by (simp add: find_None_key)
  with False assms show ?thesis by (auto simp: find_append_row split: option.splits)
qed

lemma get_character_save_character:
  "get_character (save_character db c) uid =
     (if uid = user_id c then Some c else get_character db uid)"
  unfolding get_character_def save_character_def
  by (simp add: find_upsert [where k = user_id and x = c, OF refl])

lemma get_character_clear_battle [simp]:
  "get_character (clear_battle db u) uid = get_character db uid"
  by (simp add: get_character_def clear_battle_def)

lemma get_battle_save_character [simp]:
  "get_battle (save_character db c) uid = get_battle db uid"
  by (simp add: get_battle_def save_character_def)

lemma find_filter_neq:
  "find (\<lambda>r. fst r = uid) (filter (\<lambda>r. fst r \<noteq> u) rs) =
     (if uid = u then None else find (\<lambda>r. fst r = uid) rs)"
  by (induction rs) auto

lemma get_battle_clear_battle:
  "get_battle (clear_battle db u) uid = (if uid = u then None else get_battle db uid)"
  by (simp add: get_battle_def clear_battle_def find_filter_neq)

lemma save_battle_Inr:
  "get_character db uid = Some c \<Longrightarrow>
   \<exists>db1. save_battle db uid e = Inr db1 \<and> characters db1 = characters db \<and>
         inventory db1 = inventory db \<and>
         (\<forall>u. get_battle db1 u = (if u = uid then Some e else get_battle db u)) \<and>
         (\<forall>u. get_character db1 u = get_character db u)"
  unfolding save_battle_def get_battle_def get_character_def
  by (simp add: find_upsert [where k = fst and x = "(uid, e)" and u = uid])


lemma process_attack_resolved:
  assumes "get_character db uid = Some char" and "get_battle db uid = Some enemy"
    and "calculate_damage action char enemy parsed = Inr attack"
    and "j_damage attack = Some d"
    and "j_description attack = Some descr"
  shows "process_attack db uid action parsed =
     (let enemy1 = enemy\<lparr>Enemy.hp := Enemy.hp enemy - d\<rparr>;
          result = \<lparr>player_damage = d, attack_description = descr,
             critical = (case j_critical attack of
                           Some b \<Rightarrow> b | None \<Rightarrow> False),
             enemy_defeated = (Enemy.hp enemy - d \<le> 0),
             level_up = False, rewards = None, enemy_damage = None,
             enemy_hp = None, player_defeated = False\<rparr>
      in if Enemy.hp enemy - d \<le> 0
         then (case victory db uid char enemy1 result of
                 (db1, result1) \<Rightarrow> Inr (db1, ResultDict result1))
         else (case counterattack db uid char enemy1 result of
                 Inl e \<Rightarrow> Inl e
               | Inr (db1, result1) \<Rightarrow> Inr (db1, ResultDict result1)))"
  using assms by (simp add: process_attack_def Let_def)


lemma add_item_Inr:
  "get_character db uid = Some c \<Longrightarrow>
   add_item db uid item = Inr (db\<lparr>inventory := inventory db @ [(uid, item)]\<rparr>)"
  by (simp add: add_item_def)

lemma get_character_inventory_update [simp]:
  "get_character (db\<lparr>inventory := rows\<rparr>) uid = get_character db uid"
  by (simp add: get_character_def)

lemma inventory_save_character [simp]:
  "inventory (save_character db c) = inventory db"
  by (simp add: save_character_def)

lemma find_Some_mem: "find P rs = Some r \<Longrightarrow> r \<in> set rs"
  by (induction rs) (auto split: if_splits)

lemmas sample_defs =
  hero_def veteran_def bandit_def village_db_def battle_db_def sample_judgement_def
  new_Character_def get_character_def get_battle_def calculate_damage_def

lemmas text_defs =
  purchase_pattern_def purchase_label_def digits_pattern_def ascii_def
  is_space_def is_digit_def is_word_def strip_def int_of_digits_def
  py_lower_def lower_char_def

lemmas keyword_defs =
  kw_uron_def kw_bronya_def kw_lechenie_def enemy_marker_def kw_vrag_def
  aggression_verbs_def kw_crit_def kw_precisely_def

section \<open>Evaluating the patterns\<close>

text \<open>A pattern that is one captured group of a class finds the first maximal run of the
  class: \<open>first_int\<close> is the number written by the first maximal run of digits.\<close>

lemma runs_head: "\<exists>rest. runs c s = (takeWhile c s, dropWhile c s) # rest"
  by (induction s) auto

lemma rmatch_group_only:
  "rmatch [Group c] s = (if takeWhile c s = [] then None else Some [takeWhile c s])"
proof (cases s)
  case Nil
  then show ?thesis by simp
next
  case (Cons x xs)
  obtain rest where r: "runs c xs = (takeWhile c xs, dropWhile c xs) # rest"
    using runs_head by blast
  show ?thesis using Cons r by simp
qed

lemma re_search_group_only:
  "re_search [Group c] s =
     (case dropWhile (\<lambda>x. \<not> c x) s of [] \<Rightarrow> None | x # xs \<Rightarrow> Some [takeWhile c (x # xs)])"
proof (induction s)
  case Nil
  then show ?case by simp
next
  case (Cons a s)
  show ?case
  proof (cases "c a")
    case True
    then show ?thesis by (simp only: re_search.simps rmatch_group_only) simp
  next
    case False
    then show ?thesis using Cons by (simp only: re_search.simps rmatch_group_only) simp
  qed
qed

lemma first_int_eq:
  "first_int s =
     (case dropWhile (\<lambda>x. \<not> is_digit x) s of
        [] \<Rightarrow> None
      | x # xs \<Rightarrow> Some (int_of_digits (takeWhile is_digit (x # xs))))"
proof (cases "dropWhile (\<lambda>x. \<not> is_digit x) s")
  case Nil
  show ?thesis
    unfolding first_int_def digits_pattern_def re_search_group_only Nil by simp
next
  case (Cons x xs)
  show ?thesis
    unfolding first_int_def digits_pattern_def re_search_group_only Cons by simp
qed

text \<open>Every match of the purchase pattern has four groups: a name without a pipe, a
  price of digits only (so \<open>int\<close> reads it as a number that is not negative), a type
  of word characters and a stats text without a newline, none of them empty.\<close>

lemma first_some_Some: "first_some f xs = Some y \<Longrightarrow> \<exists>x \<in> set xs. f x = Some y"
  by (induction xs) (auto split: option.splits)

lemma runs_elem: "(p, r) \<in> set (runs c s) \<Longrightarrow> s = p @ r \<and> (\<forall>x \<in> set p. c x)"
  by (induction s arbitrary: p r) (auto split: if_splits)

lemma rmatch_Lit: "rmatch (Lit l # as) s = Some gs \<Longrightarrow> \<exists>r. rmatch as r = Some gs"
  by (auto split: option.splits)

lemma rmatch_Star: "rmatch (Star c # as) s = Some gs \<Longrightarrow> \<exists>r. rmatch as r = Some gs"
  by (auto dest!: first_some_Some)

lemma rmatch_Group:
  assumes "rmatch (Group c # as) s = Some gs"
  shows "\<exists>p r gs1. gs = p # gs1 \<and> p \<noteq> [] \<and> (\<forall>x \<in> set p. c x) \<and> rmatch as r = Some gs1"
proof -
  from assms obtain p r where mem: "(p, r) \<in> set (runs c s)" and ne: "p \<noteq> []"
    and m: "map_option (\<lambda>gs. p # gs) (rmatch as r) = Some gs"
    by (auto dest!: first_some_Some)
  from m obtain gs1 where "rmatch as r = Some gs1" "gs = p # gs1" by auto
  then show ?thesis using runs_elem [OF mem] ne by blast
qed

lemma re_search_rmatch: "re_search p s = Some gs \<Longrightarrow> \<exists>t. rmatch p t = Some gs"
  by (induction s) (auto split: option.splits)

lemma purchase_match_shape:
  assumes "re_search purchase_pattern reply = Some gs"
  shows "\<exists>g1 g2 g3 g4. gs = [g1, g2, g3, g4] \<and>
     g1 \<noteq> [] \<and> 124 \<notin> set g1 \<and>
     g2 \<noteq> [] \<and> (\<forall>x \<in> set g2. is_digit x) \<and>
     g3 \<noteq> [] \<and> (\<forall>x \<in> set g3. is_word x) \<and>
     g4 \<noteq> [] \<and> 10 \<notin> set g4"
proof -
  from assms obtain t0 where "rmatch purchase_pattern t0 = Some gs"
    using re_search_rmatch by blast
  then obtain t1 where "rmatch
      [Star is_space, Group (\<lambda>c. c \<noteq> 124), Lit [124],
       Star is_space, Group is_digit, Lit [124],
       Star is_space, Group is_word, Lit [124],
       Star is_space, Group (\<lambda>c. c \<noteq> 10)] t1 = Some gs"
    unfolding purchase_pattern_def using rmatch_Lit by blast
  then obtain t2 where "rmatch
      [Group (\<lambda>c. c \<noteq> 124), Lit [124],
       Star is_space, Group is_digit, Lit [124],
       Star is_space, Group is_word, Lit [124],
       Star is_space, Group (\<lambda>c. c \<noteq> 10)] t2 = Some gs"
    using rmatch_Star by blast
  then obtain g1 t3 gs1 where g1: "gs = g1 # gs1" "g1 \<noteq> []" "\<forall>x \<in> set g1. x \<noteq> 124"
    and "rmatch
      [Lit [124], Star is_space, Group is_digit, Lit [124],
       Star is_space, Group is_word, Lit [124],
       Star is_space, Group (\<lambda>c. c \<noteq> 10)] t3 = Some gs1"
    using rmatch_Group by blast
  then obtain t4 where "rmatch
      [Star is_space, Group is_digit, Lit [124],
       Star is_space, Group is_word, Lit [124],
       Star is_space, Group (\<lambda>c. c \<noteq> 10)] t4 = Some gs1"
    using rmatch_Lit by blast
  then obtain t5 where "rmatch
      [Group is_digit, Lit [124],
       Star is_space, Group is_word, Lit [124],
       Star is_space, Group (\<lambda>c. c \<noteq> 10)] t5 = Some gs1"
    using rmatch_Star by blast
  then obtain g2 t6 gs2 where g2: "gs1 = g2 # gs2" "g2 \<noteq> []" "\<forall>x \<in> set g2. is_digit x"
    and "rmatch
      [Lit [124], Star is_space, Group is_word, Lit [124],
       Star is_space, Group (\<lambda>c. c \<noteq> 10)] t6 = Some gs2"
    using rmatch_Group by blast
  then obtain t7 where "rmatch
      [Star is_space, Group is_word, Lit [124],
       Star is_space, Group (\<lambda>c. c \<noteq> 10)] t7 = Some gs2"
    using rmatch_Lit by blast
  then obtain t8 where "rmatch
      [Group is_word, Lit [124], Star is_space, Group (\<lambda>c. c \<noteq> 10)] t8 = Some gs2"
    using rmatch_Star by blast
  then obtain g3 t9 gs3 where g3: "gs2 = g3 # gs3" "g3 \<noteq> []" "\<forall>x \<in> set g3. is_word x"
    and "rmatch [Lit [124], Star is_space, Group (\<lambda>c. c \<noteq> 10)] t9 = Some gs3"
    using rmatch_Group by blast
  then obtain t10 where "rmatch [Star is_space, Group (\<lambda>c. c \<noteq> 10)] t10 = Some gs3"
    using rmatch_Lit by blast
  then obtain t11 where "rmatch [Group (\<lambda>c. c \<noteq> 10)] t11 = Some gs3"
    using rmatch_Star by blast
  then obtain g4 t12 gs4 where g4: "gs3 = g4 # gs4" "g4 \<noteq> []" "\<forall>x \<in> set g4. x \<noteq> 10"
    and "rmatch [] t12 = Some gs4"
    using rmatch_Group by blast
  then have "gs4 = []" by simp
  with g1 g2 g3 g4 show ?thesis by auto
qed

lemma foldl_digits_nonneg:
  "0 \<le> acc \<Longrightarrow> \<forall>x \<in> set s. is_digit x \<Longrightarrow>
   0 \<le> foldl (\<lambda>acc c. 10 * acc + (int c - 48)) acc s"
  by (induction s arbitrary: acc) (auto simp add: is_digit_def)

lemma int_of_digits_nonneg: "\<forall>x \<in> set s. is_digit x \<Longrightarrow> 0 \<le> int_of_digits s"
  unfolding int_of_digits_def by (rule foldl_digits_nonneg) simp_all

text \<open>Purchase lines: without whitespace before the second and third pipe the line is
  matched; with the separators written as space, pipe, space it is not, and a line without
  a price is not.\<close>

lemma compact_line_groups:
  "re_search purchase_pattern (purchase_label @ ascii '' Iron Sword |30| weapon| damage 8'') =
     Some [ascii ''Iron Sword '', ascii ''30'', ascii ''weapon'', ascii ''damage 8'']"
  by (simp add: text_defs)

lemma spaced_line_no_match:
  "re_search purchase_pattern (purchase_label @ ascii '' Iron Sword | 30 | weapon | damage 8'') = None"
  by (simp add: text_defs)

lemma missing_price_no_match:
  "re_search purchase_pattern (purchase_label @ ascii '' Iron Sword |weapon| damage 8'') = None"
  by (simp add: text_defs)

lemma infer_damage_armor: "infer_stats (ascii ''damage 5 armor'') = (5, 5, 0)"
  by (simp add: infer_stats_def first_int_def text_defs keyword_defs)

lemma axe_line_groups:
  "re_search purchase_pattern (purchase_label @ ascii '' Axe|10|weapon|damage 5 armor'') =
     Some [ascii ''Axe'', ascii ''10'', ascii ''weapon'', ascii ''damage 5 armor'']"
  by (simp add: text_defs)

lemma axe_line_no_enemy:
  "\<not> (contains enemy_marker (purchase_label @ ascii '' Axe|10|weapon|damage 5 armor'') \<or>
      (contains kw_vrag (py_lower (purchase_label @ ascii '' Axe|10|weapon|damage 5 armor'')) \<and>
       (\<exists>word \<in> set aggression_verbs.
          contains word (py_lower (purchase_label @ ascii '' Axe|10|weapon|damage 5 armor'')))))"
  by (simp add: text_defs keyword_defs)

lemma hit_not_critical:
  "\<not> (contains kw_crit (py_lower (ascii ''hit'')) \<or>
      contains kw_precisely (py_lower (ascii ''hit'')))"
  by (simp add: text_defs keyword_defs)

section \<open>Attacks\<close>

lemma process_attack_succeeds:
  assumes "get_character db uid = Some char" and "get_battle db uid = Some enemy"
    and "calculate_damage action char enemy parsed = Inr attack"
    and "j_damage attack = Some d"
    and "j_description attack = Some descr"
  shows "\<exists>db1 r. process_attack db uid action parsed = Inr (db1, ResultDict r) \<and>
     player_damage r = d \<and>
     critical r = (case j_critical attack of Some b \<Rightarrow> b | None \<Rightarrow> False)"
proof (cases "Enemy.hp enemy - d \<le> 0")
  case True
  then show ?thesis
    by (simp add: process_attack_resolved [OF assms] victory_def Let_def)
next
  case False
  obtain db2 where sb: "save_battle db uid (enemy\<lparr>Enemy.hp := Enemy.hp enemy - d\<rparr>) = Inr db2"
    using save_battle_Inr [OF assms(1)] by blast
  show ?thesis
    using False sb
    by (simp add: process_attack_resolved [OF assms] counterattack_def Let_def)
qed

lemma calculate_damage_parsed: "calculate_damage action char enemy (Some j) = Inr j"
  by (simp add: calculate_damage_def)

subsection \<open>The arithmetic of the fallback\<close>

text \<open>
  Below \<open>2 ^ 53\<close> an integer is a double, and so is one and a half times it. The product of
  the armor with the double \<open>0.3\<close> is rounded; for an armor below \<open>2 ^ 40\<close> in absolute value
  the error of that rounding and of the rounding of the difference is too small to move
  the result across an integer, because the exact result is a multiple of one tenth and
  the double \<open>0.3\<close> is below three tenths by \<open>2 ^ -54 / 5\<close> only. So within these bounds the
  truncated double is the truncated exact number.
\<close>

lemma shift53_small: "\<bar>n\<bar> < 2 ^ 53 \<Longrightarrow> shift53 n = 0"
  by (simp add: shift53.simps)

lemma shift53_step: "\<not> \<bar>n\<bar> < 2 ^ 53 \<Longrightarrow> shift53 n = Suc (shift53 (\<bar>n\<bar> div 2))"
  by (subst shift53.simps) simp

lemma shift53_upper: "\<bar>n\<bar> < 2 ^ 53 * 2 ^ shift53 n"
proof (induction n rule: shift53.induct)
  case (1 n)
  show ?case
  proof (cases "\<bar>n\<bar> < 2 ^ 53")
    case True
    then show ?thesis by (simp add: shift53_small)
  next
    case False
    let ?h = "\<bar>n\<bar> div 2"
    have ih: "\<bar>?h\<bar> < 2 ^ 53 * 2 ^ shift53 ?h" using 1 False by simp
    then have "?h < 2 ^ 53 * 2 ^ shift53 ?h" by simp
    then have "\<bar>n\<bar> < 2 * (2 ^ 53 * 2 ^ shift53 ?h)" by linarith
    then show ?thesis by (simp add: shift53_step [OF False] mult_ac)
  qed
qed

lemma shift53_le: "\<bar>n\<bar> < 2 ^ 53 * 2 ^ k \<Longrightarrow> shift53 n \<le> k"
proof (induction n arbitrary: k rule: shift53.induct)
  case (1 n)
  show ?case
  proof (cases "\<bar>n\<bar> < 2 ^ 53")
    case True
    then show ?thesis by (simp add: shift53_small)
  next
    case False
    let ?h = "\<bar>n\<bar> div 2"
    have "k \<noteq> 0" using False "1.prems" by (cases k) auto
    then obtain j where k: "k = Suc j" by (cases k) auto
    have "\<bar>n\<bar> < 2 * (2 ^ 53 * 2 ^ j)" using "1.prems" unfolding k by simp
    then have "?h < 2 ^ 53 * 2 ^ j" by linarith
    moreover have "0 \<le> ?h" by simp
    ultimately have "\<bar>?h\<bar> < 2 ^ 53 * 2 ^ j" by linarith
    then have "shift53 ?h \<le> j" using "1.IH" [OF False] by blast
    then show ?thesis by (simp add: shift53_step [OF False] k)
  qed
qed

text \<open>rounding of a non-negative integer to a multiple of 2^s\<close>

lemma nearest_multiple:
  fixes m t :: int
  assumes "0 \<le> m" and "t = k * 2 ^ s" and "2 * \<bar>m - t\<bar> < 2 ^ s"
  shows "(if 2 ^ s < 2 * (m mod 2 ^ s) \<or> (2 * (m mod 2 ^ s) = 2 ^ s \<and> odd (m div 2 ^ s))
          then m div 2 ^ s + 1 else m div 2 ^ s) * 2 ^ s = t"
proof -
  define p where "p = (2::int) ^ s"
  have p: "0 < p" by (simp add: p_def)
  have t: "t = k * p" using assms(2) by (simp add: p_def)
  have near: "2 * \<bar>m - t\<bar> < p" using assms(3) by (simp add: p_def)
  have "(if p < 2 * (m mod p) \<or> (2 * (m mod p) = p \<and> odd (m div p))
          then m div p + 1 else m div p) * p = t"
  proof (cases "t \<le> m")
    case True
    then have d: "0 \<le> m - t" "m - t < p" "2 * (m - t) < p" using near by auto
    have e: "m = p * k + (m - t)" using t by (simp add: algebra_simps)
    have q: "m div p = k" using e d(1,2) by (rule int_div_pos_eq)
    have r: "m mod p = m - t" using e d(1,2) by (rule int_mod_pos_eq)
    show ?thesis using d(3) t by (simp add: q r)
  next
    case False
    then have d: "0 < t - m" "2 * (t - m) < p" using near by auto
    have e: "m = p * (k - 1) + (p - (t - m))" using t by (simp add: algebra_simps)
    have b: "0 \<le> p - (t - m)" "p - (t - m) < p" using d by auto
    have q: "m div p = k - 1" using e b by (rule int_div_pos_eq)
    have r: "m mod p = p - (t - m)" using e b by (rule int_mod_pos_eq)
    have "p < 2 * p - 2 * (t - m)" using d by linarith
    then have "p < 2 * (p - (t - m))" by (simp add: algebra_simps)
    then show ?thesis using t by (simp add: q r algebra_simps)
  qed
  then show ?thesis unfolding p_def .
qed


lemma round53_nearest:
  assumes "t = k * 2 ^ shift53 n" and "2 * \<bar>n - t\<bar> < 2 ^ shift53 n"
  shows "round53 n = t"
proof -
  let ?s = "shift53 n"
  consider "0 < n" | "n < 0" | "n = 0" by linarith
  then show ?thesis
  proof cases
    case 1
    then have "0 \<le> \<bar>n\<bar>" "2 * \<bar>\<bar>n\<bar> - t\<bar> < 2 ^ ?s" using assms(2) by auto
    from nearest_multiple [OF this(1) assms(1) this(2)] 1
    show ?thesis by (simp add: round53_def Let_def)
  next
    case 2
    have t: "- t = (- k) * 2 ^ ?s" using assms(1) by simp
    have "\<bar>n\<bar> - (- t) = - (n - t)" using 2 by simp
    then have "\<bar>\<bar>n\<bar> - (- t)\<bar> = \<bar>n - t\<bar>" by (simp only: abs_minus)
    then have "2 * \<bar>\<bar>n\<bar> - (- t)\<bar> < 2 ^ ?s" using assms(2) by simp
    from nearest_multiple [OF _ t this] 2
    show ?thesis by (simp add: round53_def Let_def)
  next
    case 3
    then have "2 * \<bar>k\<bar> * 2 ^ ?s < 2 ^ ?s" using assms by (simp add: abs_mult)
    then have "k = 0" by (cases "k = 0") auto
    then show ?thesis using 3 assms(1) by (simp add: round53_def Let_def)
  qed
qed

lemma round53_exact: "2 ^ shift53 n dvd n \<Longrightarrow> round53 n = n"
proof -
  assume "2 ^ shift53 n dvd n"
  then obtain k where "n = k * 2 ^ shift53 n" by (auto simp add: dvd_def mult.commute)
  then show ?thesis by (rule round53_nearest) simp
qed

lemma round53_small: "\<bar>n\<bar> < 2 ^ 53 \<Longrightarrow> round53 n = n"
  by (rule round53_exact) (simp add: shift53_small)

lemma round53_error: "2 * \<bar>round53 n - n\<bar> \<le> 2 ^ shift53 n"
proof -
  define p where "p = (2::int) ^ shift53 n"
  define m where "m = \<bar>n\<bar>"
  define q1 where "q1 = (if p < 2 * (m mod p) \<or> (2 * (m mod p) = p \<and> odd (m div p))
                         then m div p + 1 else m div p)"
  have p: "0 < p" by (simp add: p_def)
  have r: "round53 n = sgn n * (q1 * p)"
    by (simp add: round53_def Let_def p_def m_def q1_def)
  define r where "r = m mod p"
  define q where "q = m div p"
  have md: "m = q * p + r" by (simp add: q_def r_def)
  have mb: "0 \<le> r" "r < p" using p by (simp_all add: r_def)
  have "2 * \<bar>q1 * p - m\<bar> \<le> p"
  proof (cases "p < 2 * r \<or> (2 * r = p \<and> odd q)")
    case True
    then have "q1 = q + 1" unfolding q1_def r_def q_def by (rule if_P)
    then have "q1 * p - m = q * p + p - m" by (simp add: algebra_simps)
    then have d: "q1 * p - m = p - r" using md by linarith
    have "p \<le> 2 * r" using True by auto
    then have "2 * (p - r) \<le> p" by simp
    moreover have "\<bar>p - r\<bar> = p - r" using mb by simp
    ultimately show ?thesis by (simp only: d)
  next
    case False
    then have "q1 = q" unfolding q1_def r_def q_def by (rule if_not_P)
    then have "q1 * p - m = q * p - m" by simp
    then have d: "q1 * p - m = - r" using md by linarith
    have "2 * r \<le> p" using False by auto
    moreover have "\<bar>- r\<bar> = r" using mb by simp
    ultimately show ?thesis by (simp only: d)
  qed
  moreover have "\<bar>round53 n - n\<bar> = \<bar>q1 * p - m\<bar>"
  proof -
    consider "0 < n" | "n < 0" | "n = 0" by linarith
    then show ?thesis
    proof cases
      case 1 then show ?thesis by (simp add: r m_def)
    next
      case 2 then show ?thesis by (simp add: r m_def)
    next
      case 3
      have m0: "m = 0" using 3 by (simp add: m_def)
      have "q1 = 0" using p by (simp add: q1_def m0)
      then show ?thesis unfolding r using 3 m0 by simp
    qed
  qed
  ultimately show ?thesis by (simp add: p_def)
qed


lemma fl_grid:
  "fl (of_int n / 2 ^ 54) =
     (if 2 ^ 1078 \<le> \<bar>round53 n\<bar> then None else Some (of_int (round53 n) / 2 ^ 54))"
proof -
  have "(of_int n / 2 ^ 54 :: rat) * 2 ^ 54 = of_int n" by simp
  then have "\<lfloor>(of_int n / 2 ^ 54 :: rat) * 2 ^ 54\<rfloor> = n" by (simp only: floor_of_int)
  then show ?thesis by (simp only: fl_def Let_def)
qed

lemma pow_dvd_le: "j \<le> k \<Longrightarrow> (2::int) ^ j dvd 2 ^ k"
  by (rule le_imp_power_dvd)

lemma fl_exact:
  assumes "\<bar>n\<bar> < 2 ^ 53 * 2 ^ k" and "2 ^ k dvd n" and "k \<le> 1024"
  shows "fl (of_int n / 2 ^ 54) = Some (of_int n / 2 ^ 54)"
proof -
  have "shift53 n \<le> k" using assms(1) by (rule shift53_le)
  then have "(2::int) ^ shift53 n dvd 2 ^ k" by (rule pow_dvd_le)
  then have "2 ^ shift53 n dvd n" using assms(2) by (rule dvd_trans)
  then have r: "round53 n = n" by (rule round53_exact)
  have "(2::int) ^ k \<le> 2 ^ 1024" using assms(3) by (rule power_increasing) simp
  then have "(2::int) ^ 53 * 2 ^ k \<le> 2 ^ 53 * 2 ^ 1024" by (rule mult_left_mono) simp
  also have "\<dots> < 2 ^ 1078" by simp
  finally have "\<bar>n\<bar> < 2 ^ 1078" using assms(1) by linarith
  then show ?thesis by (simp only: fl_grid r) simp
qed

lemma fl_of_int:
  assumes "\<bar>n\<bar> < 2 ^ 53"
  shows "fl (of_int n) = Some (of_int n)"
proof -
  have e: "(of_int n :: rat) = of_int (n * 2 ^ 54) / 2 ^ 54" by simp
  have "\<bar>n * 2 ^ 54\<bar> < 2 ^ 53 * 2 ^ 54" using assms by (simp add: abs_mult)
  then have "fl (of_int (n * 2 ^ 54) / 2 ^ 54) = Some (of_int (n * 2 ^ 54) / 2 ^ 54)"
    by (rule fl_exact) simp_all
  then show ?thesis by (simp only: e [symmetric])
qed

lemma fl_halves:
  assumes "\<bar>w\<bar> < 2 ^ 53"
  shows "fl (of_int w / 2) = Some (of_int w / 2)"
proof -
  have e: "(of_int w / 2 :: rat) = of_int (w * 2 ^ 53) / 2 ^ 54" by simp
  have "\<bar>w * 2 ^ 53\<bar> < 2 ^ 53 * 2 ^ 53" using assms by (simp add: abs_mult)
  then have "fl (of_int (w * 2 ^ 53) / 2 ^ 54) = Some (of_int (w * 2 ^ 53) / 2 ^ 54)"
    by (rule fl_exact) simp_all
  then show ?thesis by (simp only: e [symmetric])
qed


lemma round53_fifth:
  assumes "\<bar>t\<bar> < 2 ^ 38"
  shows "round53 (5 * t * 5404319552844595) = 3 * t * 2 ^ 53"
proof -
  let ?n = "5 * t * 5404319552844595 :: int"
  let ?s = "shift53 ?n"
  have n: "?n = 3 * t * 2 ^ 53 - t" by simp
  have lo: "2 * \<bar>t\<bar> * 2 ^ 53 \<le> \<bar>?n\<bar>" by (simp add: abs_mult)
  have "\<bar>?n\<bar> < 2 ^ 53 * 2 ^ 40" using assms by (simp add: abs_mult)
  then have s40: "?s \<le> 40" by (rule shift53_le)
  then have "?s \<le> 53" by simp
  then have "(2::int) ^ ?s dvd 2 ^ 53" by (rule pow_dvd_le)
  then have "2 ^ ?s dvd 3 * t * 2 ^ 53" by (rule dvd_mult)
  then obtain k where k: "3 * t * 2 ^ 53 = k * 2 ^ ?s" by (auto simp add: dvd_def mult.commute)
  have "\<bar>?n\<bar> < 2 ^ 53 * 2 ^ ?s" by (rule shift53_upper)
  then have "2 * \<bar>t\<bar> * 2 ^ 53 < 2 ^ 53 * 2 ^ ?s" using lo by linarith
  then have "2 * \<bar>t\<bar> < 2 ^ ?s" by simp
  moreover have "\<bar>?n - 3 * t * 2 ^ 53\<bar> = \<bar>t\<bar>" by simp
  ultimately have "2 * \<bar>?n - 3 * t * 2 ^ 53\<bar> < 2 ^ ?s" by simp
  with k show ?thesis by (rule round53_nearest)
qed

lemma round53_product:
  assumes "\<bar>a\<bar> < 2 ^ 40"
  shows "\<bar>round53 (a * 5404319552844595) - a * 5404319552844595\<bar> \<le> 2 ^ 39"
proof -
  let ?n = "a * 5404319552844595 :: int"
  have "\<bar>?n\<bar> < 2 ^ 53 * 2 ^ 40" using assms by (simp add: abs_mult)
  then have "shift53 ?n \<le> 40" by (rule shift53_le)
  then have "(2::int) ^ shift53 ?n \<le> 2 ^ 40" by (rule power_increasing) simp
  moreover have "2 * \<bar>round53 ?n - ?n\<bar> \<le> 2 ^ shift53 ?n" by (rule round53_error)
  ultimately have "2 * \<bar>round53 ?n - ?n\<bar> \<le> 2 ^ 40" by linarith
  then show ?thesis by simp
qed

lemma round53_within:
  assumes "\<bar>e\<bar> < 2 ^ 53 * 2 ^ 43"
  shows "\<bar>round53 e - e\<bar> \<le> 2 ^ 42"
proof -
  have "shift53 e \<le> 43" using assms by (rule shift53_le)
  then have "(2::int) ^ shift53 e \<le> 2 ^ 43" by (rule power_increasing) simp
  moreover have "2 * \<bar>round53 e - e\<bar> \<le> 2 ^ shift53 e" by (rule round53_error)
  ultimately have "2 * \<bar>round53 e - e\<bar> \<le> 2 ^ 43" by linarith
  then show ?thesis by simp
qed


lemma py_int_grid: "max 1 (py_int (of_int d / 2 ^ 54)) = max 1 (d div 2 ^ 54)"
proof (cases "d < 0")
  case True
  then have "(of_int d / 2 ^ 54 :: rat) < 0" by (simp add: divide_neg_pos)
  moreover from this have "\<lceil>of_int d / 2 ^ 54 :: rat\<rceil> \<le> 0" by (simp add: ceiling_le_zero)
  moreover have "d div 2 ^ 54 < 0" using True by (simp add: div_neg_pos_less0)
  ultimately show ?thesis by (simp add: py_int_def)
next
  case False
  then have "\<not> (of_int d / 2 ^ 54 :: rat) < 0" by (simp add: divide_less_0_iff)
  moreover have "\<lfloor>of_int d / 2 ^ 54 :: rat\<rfloor> = d div 2 ^ 54"
    using floor_divide_of_int_eq [of d "2 ^ 54", where ?'a = rat] by simp
  ultimately show ?thesis by (simp add: py_int_def)
qed

lemma grid_fifth:
  fixes b t :: int and crit :: bool
  assumes "\<bar>b\<bar> < 2 ^ 41" and "\<bar>t\<bar> < 2 ^ 38"
  defines "w \<equiv> (if crit then 3 * b else 2 * b) - 3 * t"
  defines "m \<equiv> (if crit then 3 * b * 2 ^ 53 else b * 2 ^ 54)"
  shows "round53 (m - round53 (5 * t * 5404319552844595)) = w * 2 ^ 53"
proof -
  have p: "round53 (5 * t * 5404319552844595) = 3 * t * 2 ^ 53"
    using assms(2) by (rule round53_fifth)
  have e: "m - 3 * t * 2 ^ 53 = w * 2 ^ 53" by (simp add: m_def w_def algebra_simps)
  have "\<bar>w\<bar> < 2 ^ 53" using assms(1,2) by (simp add: w_def abs_if split: if_splits)
  then have "\<bar>w * 2 ^ 53\<bar> < 2 ^ 53 * 2 ^ 53" by (simp add: abs_mult)
  then have "shift53 (w * 2 ^ 53) \<le> 53" by (rule shift53_le)
  then have "(2::int) ^ shift53 (w * 2 ^ 53) dvd 2 ^ 53" by (rule pow_dvd_le)
  then have "2 ^ shift53 (w * 2 ^ 53) dvd w * 2 ^ 53" by (rule dvd_mult)
  then have "round53 (w * 2 ^ 53) = w * 2 ^ 53" by (rule round53_exact)
  then show ?thesis by (simp only: p e)
qed


lemma grid_other:
  fixes a b :: int and crit :: bool
  assumes "\<bar>b\<bar> < 2 ^ 41" and "\<bar>a\<bar> < 2 ^ 40" and "\<not> 5 dvd a"
  defines "m \<equiv> (if crit then 3 * b * 2 ^ 53 else b * 2 ^ 54)"
  defines "n \<equiv> (if crit then 15 else 10) * b - 3 * a"
  shows "round53 (m - round53 (a * 5404319552844595)) div 2 ^ 54 = n div 10"
proof -
  define ac where "ac = a * 5404319552844595"
  define p where "p = round53 ac"
  define e where "e = m - p"
  define d where "d = round53 e"
  define z where "z = n div 10"
  define r where "r = n mod 10"
  have b: "- 2199023255552 < b" "b < 2199023255552" using assms(1) by auto
  have a: "- 1099511627776 < a" "a < 1099511627776" using assms(2) by auto
  have "\<bar>p - ac\<bar> \<le> 2 ^ 39" unfolding p_def ac_def using assms(2) by (rule round53_product)
  then have ep: "- 549755813888 \<le> p - ac" "p - ac \<le> 549755813888" by auto
  have m10: "10 * m = (if crit then 15 else 10) * b * 18014398509481984"
    by (simp add: m_def)
  have mb: "- 59447515081290547200 * 1000000000 < m" "m < 59447515081290547200 * 1000000000"
    using b by (auto simp add: m_def)
  have acb: "- 5942115257806499131118977024 < ac" "ac < 5942115257806499131118977024"
    using a by (auto simp add: ac_def)
  have "\<bar>e\<bar> < 2 ^ 53 * 2 ^ 43" using mb acb ep by (simp add: e_def abs_if)
  then have "\<bar>round53 e - e\<bar> \<le> 2 ^ 42" by (rule round53_within)
  then have ed: "- 4398046511104 \<le> d - e" "d - e \<le> 4398046511104"
    by (auto simp add: d_def)
  have n: "n = 10 * z + r" by (simp add: z_def r_def)
  have "r \<noteq> 0" using assms(3) unfolding r_def n_def by (cases crit) (simp_all, presburger+)
  moreover have "0 \<le> r" "r < 10" by (simp_all add: r_def)
  ultimately have r: "1 \<le> r" "r \<le> 9" by auto
  have key: "10 * d - n * 18014398509481984 = 10 * (d - e) - 10 * (p - ac) + 2 * a"
  proof -
    have "n * 18014398509481984 = 10 * m - 3 * a * 18014398509481984"
      using m10 by (simp add: n_def algebra_simps)
    moreover have "10 * ac = 3 * a * 18014398509481984 - 2 * a" by (simp add: ac_def)
    ultimately show ?thesis by (simp add: e_def algebra_simps)
  qed
  have lo: "z * 18014398509481984 < d" and hi: "d < (z + 1) * 18014398509481984"
    using key ed ep a r n by (simp_all add: algebra_simps)
  have "d = 18014398509481984 * z + (d - z * 18014398509481984)" by simp
  moreover have "0 \<le> d - z * 18014398509481984" "d - z * 18014398509481984 < 18014398509481984"
    using lo hi by (simp_all add: algebra_simps)
  ultimately have "d div 18014398509481984 = z" by (rule int_div_pos_eq)
  then show ?thesis by (simp add: d_def e_def p_def ac_def z_def)
qed


lemma fl_grid_small:
  assumes "\<bar>e\<bar> < 2 ^ 53 * 2 ^ 43"
  shows "fl (of_int e / 2 ^ 54) = Some (of_int (round53 e) / 2 ^ 54)"
proof -
  have "\<bar>round53 e - e\<bar> \<le> 2 ^ 42" using assms by (rule round53_within)
  then have "\<bar>round53 e\<bar> < 2 ^ 1078" using assms by (simp add: abs_if split: if_splits)
  then show ?thesis by (simp only: fl_grid) simp
qed

lemma fallback_number_bounded:
  fixes a b :: int and crit :: bool
  assumes "\<bar>b\<bar> < 2 ^ 41" and "\<bar>a\<bar> < 2 ^ 40"
  shows "\<exists>z. fallback_number b crit a = Some z \<and>
     max 1 z = max 1 (((if crit then 15 else 10) * b - 3 * a) div 10)"
proof -
  define m where "m = (if crit then 3 * b * 2 ^ 53 else b * 2 ^ 54)"
  define p where "p = round53 (a * 5404319552844595)"
  define d where "d = round53 (m - p)"
  define n where "n = (if crit then 15 else 10) * b - 3 * a"
  have b53: "\<bar>b\<bar> < 2 ^ 53" "\<bar>3 * b\<bar> < 2 ^ 53" using assms(1) by auto
  have a53: "\<bar>a\<bar> < 2 ^ 53" using assms(2) by auto
  have fb: "fl (of_int b) = Some (of_int b)" using b53(1) by (rule fl_of_int)
  have e3: "(of_int b * (3 / 2) :: rat) = of_int (3 * b) / 2" by simp
  have fb3: "fl (of_int b * (3 / 2)) = Some (of_int (3 * b) / 2)"
    unfolding e3 using b53(2) by (rule fl_halves)
  have left: "(if crit then Option.bind (fl (of_int b)) (\<lambda>b. fl (b * (3 / 2)))
               else fl (of_int b)) = Some (of_int m / 2 ^ 54)"
  proof (cases crit)
    case True
    have em: "(of_int m / 2 ^ 54 :: rat) = of_int (3 * b) / 2" by (simp add: m_def True)
    show ?thesis by (simp only: True if_True fb Option.bind.simps fb3 em)
  next
    case False
    have em: "(of_int m / 2 ^ 54 :: rat) = of_int b" by (simp add: m_def False)
    show ?thesis by (simp only: False if_False fb em)
  qed
  have fa: "fl (of_int a) = Some (of_int a)" using a53 by (rule fl_of_int)
  have "\<bar>a * 5404319552844595\<bar> < 2 ^ 53 * 2 ^ 43" using assms(2) by (simp add: abs_mult)
  then have "fl (of_int (a * 5404319552844595) / 2 ^ 54) = Some (of_int p / 2 ^ 54)"
    unfolding p_def by (rule fl_grid_small)
  moreover have "(of_int a * double_0_3 :: rat) = of_int (a * 5404319552844595) / 2 ^ 54"
    by (simp add: double_0_3_def)
  ultimately have right: "Option.bind (fl (of_int a)) (\<lambda>a. fl (a * double_0_3)) =
      Some (of_int p / 2 ^ 54)"
    by (simp only: fa Option.bind.simps)
  have "\<bar>p - a * 5404319552844595\<bar> \<le> 2 ^ 39"
    unfolding p_def using assms(2) by (rule round53_product)
  then have pb: "\<bar>p\<bar> < 2 ^ 93" using assms(2) by (simp add: abs_if split: if_splits)
  have mb: "\<bar>m\<bar> < 3 * 2 ^ 94" using assms(1) by (simp add: m_def abs_if split: if_splits)
  have "\<bar>m - p\<bar> < 2 ^ 53 * 2 ^ 43" using pb mb by (simp add: abs_if split: if_splits)
  then have fd: "fl (of_int (m - p) / 2 ^ 54) = Some (of_int d / 2 ^ 54)"
    unfolding d_def by (rule fl_grid_small)
  have ed: "(of_int m / 2 ^ 54 - of_int p / 2 ^ 54 :: rat) = of_int (m - p) / 2 ^ 54"
    by (simp add: diff_divide_distrib)
  have diff: "fl (of_int m / 2 ^ 54 - of_int p / 2 ^ 54) = Some (of_int d / 2 ^ 54)"
    by (simp only: ed fd)
  have val: "fallback_number b crit a = Some (py_int (of_int d / 2 ^ 54))"
    unfolding fallback_number_def by (simp only: left right diff option.case option.map)
  have "d div 2 ^ 54 = n div 10"
  proof (cases "5 dvd a")
    case True
    then obtain t where t: "a = 5 * t" by (auto simp add: dvd_def)
    then have tb: "\<bar>t\<bar> < 2 ^ 38" using assms(2) by (simp add: abs_if split: if_splits)
    define w where "w = (if crit then 3 * b else 2 * b) - 3 * t"
    have "d = w * 2 ^ 53"
      using grid_fifth [OF assms(1) tb, of crit] by (simp add: d_def p_def m_def w_def t)
    then have "d div 2 ^ 54 = w div 2" by simp
    moreover have "n = 5 * w" by (simp add: n_def w_def t)
    ultimately show ?thesis by simp
  next
    case False
    from grid_other [OF assms False, of crit] show ?thesis
      by (simp add: d_def p_def m_def n_def)
  qed
  then have "max 1 (py_int (of_int d / 2 ^ 54)) = max 1 (n div 10)"
    by (simp only: py_int_grid)
  then show ?thesis using val by (simp add: n_def)
qed

text \<open>
  Beyond the bounds the double result leaves the exact one. With base damage 15 and armor
  \<open>- 10 ^ 17\<close> the product with \<open>0.3\<close> and the difference are both rounded to multiples of
  \<open>4\<close>, and the damage is 30000000000000016, where the exact formula has
  30000000000000015. An integer from \<open>2 ^ 1024\<close> on has no double: the fallback raises.
\<close>

lemma shift53_lower: "\<not> \<bar>n\<bar> < 2 ^ 53 \<Longrightarrow> 2 ^ 52 * 2 ^ shift53 n \<le> \<bar>n\<bar>"
proof (induction n rule: shift53.induct)
  case (1 n)
  let ?h = "\<bar>n\<bar> div 2"
  have big: "\<not> \<bar>n\<bar> < 2 ^ 53" using "1.prems" .
  have s: "shift53 n = Suc (shift53 ?h)" using big by (rule shift53_step)
  have h2: "2 * ?h \<le> \<bar>n\<bar>" by simp
  show ?case
  proof (cases "\<bar>?h\<bar> < 2 ^ 53")
    case True
    then have "shift53 ?h = 0" by (rule shift53_small)
    then show ?thesis using big by (simp add: s)
  next
    case False
    with 1 big have "2 ^ 52 * 2 ^ shift53 ?h \<le> \<bar>?h\<bar>" by simp
    then have "2 ^ 52 * 2 ^ shift53 ?h \<le> ?h" by simp
    then have "2 * (2 ^ 52 * 2 ^ shift53 ?h) \<le> \<bar>n\<bar>" using h2 by linarith
    then show ?thesis by (simp add: s mult_ac)
  qed
qed

lemma shift53_eq:
  assumes "2 ^ 52 * 2 ^ k \<le> \<bar>n\<bar>" and "\<bar>n\<bar> < 2 ^ 53 * 2 ^ k" and "0 < k"
  shows "shift53 n = k"
proof -
  have le: "shift53 n \<le> k" using assms(2) by (rule shift53_le)
  have "(2::int) ^ 52 * 2 ^ k < 2 ^ 53 * 2 ^ shift53 n"
    using assms(1) shift53_upper [of n] by linarith
  then have "(2::int) ^ (52 + k) < 2 ^ (53 + shift53 n)" by (simp only: power_add)
  then have "52 + k < 53 + shift53 n" by simp
  then show ?thesis using le by linarith
qed

lemma round53_value:
  assumes "2 ^ 52 * 2 ^ k \<le> \<bar>n\<bar>" and "\<bar>n\<bar> < 2 ^ 53 * 2 ^ k" and "0 < k"
    and "t = j * 2 ^ k" and "2 * \<bar>n - t\<bar> < 2 ^ k"
  shows "round53 n = t"
proof -
  have s: "shift53 n = k" using assms(1-3) by (rule shift53_eq)
  have t: "t = j * 2 ^ shift53 n" using assms(4) by (simp only: s)
  have e: "2 * \<bar>n - t\<bar> < 2 ^ shift53 n" using assms(5) by (simp only: s)
  show ?thesis using t e by (rule round53_nearest)
qed

lemma round53_large:
  assumes "2 ^ 1078 \<le> \<bar>n\<bar>"
  shows "2 ^ 1078 \<le> \<bar>round53 n\<bar>"
proof -
  define s where "s = shift53 n"
  define p where "p = (2::int) ^ s"
  define q where "q = \<bar>n\<bar> div p"
  have p0: "0 < p" by (simp add: p_def)
  have big: "\<not> \<bar>n\<bar> < 2 ^ 53" using assms by simp
  have lo: "2 ^ 52 * p \<le> \<bar>n\<bar>" unfolding p_def s_def using big by (rule shift53_lower)
  have up: "\<bar>n\<bar> < 2 ^ 53 * p" unfolding p_def s_def by (rule shift53_upper)
  have "(2::int) ^ 1078 < 2 ^ 53 * 2 ^ s" using assms up by (simp add: p_def)
  then have "(2::int) ^ 1078 < 2 ^ (53 + s)" by (simp only: power_add)
  then have "1078 < 53 + s"
    by (rule power_less_imp_less_exp [of "2::int", rotated]) simp
  then have "1026 \<le> s" by simp
  then have "(2::int) ^ 1026 \<le> 2 ^ s" by (rule power_increasing) simp
  then have "(2::int) ^ 52 * 2 ^ 1026 \<le> 2 ^ 52 * p" unfolding p_def by (rule mult_left_mono) simp
  then have goal: "(2::int) ^ 1078 \<le> 2 ^ 52 * p" by simp
  have "2 ^ 52 * p div p \<le> \<bar>n\<bar> div p" using lo p0 by (intro zdiv_mono1) auto
  then have q52: "2 ^ 52 \<le> q" using p0 by (simp add: q_def)
  define q1 where "q1 = (if p < 2 * (\<bar>n\<bar> mod p) \<or> (2 * (\<bar>n\<bar> mod p) = p \<and> odd q) then q + 1 else q)"
  have "q \<le> q1" by (simp add: q1_def)
  then have q1: "2 ^ 52 \<le> q1" using q52 by linarith
  have r: "round53 n = sgn n * (q1 * p)"
    by (simp add: round53_def Let_def q1_def q_def p_def s_def)
  have "n \<noteq> 0" using big by auto
  then have "\<bar>sgn n\<bar> = 1" by (simp add: sgn_if)
  then have "\<bar>round53 n\<bar> = \<bar>q1 * p\<bar>" by (simp add: r abs_mult)
  also have "\<dots> = q1 * p" using q1 p0 by (simp add: abs_mult)
  finally have e: "\<bar>round53 n\<bar> = q1 * p" .
  have "2 ^ 52 * p \<le> q1 * p" using q1 p0 by (intro mult_right_mono) auto
  then show ?thesis using goal e by linarith
qed

lemma fl_overflow:
  assumes "2 ^ 1024 \<le> \<bar>a\<bar>"
  shows "fl (of_int a) = None"
proof -
  have e: "(of_int a :: rat) = of_int (a * 2 ^ 54) / 2 ^ 54" by simp
  have "(2::int) ^ 1024 * 2 ^ 54 \<le> \<bar>a\<bar> * 2 ^ 54" using assms by (intro mult_right_mono) auto
  then have "2 ^ 1078 \<le> \<bar>a * 2 ^ 54\<bar>" by (simp add: abs_mult)
  then have "2 ^ 1078 \<le> \<bar>round53 (a * 2 ^ 54)\<bar>" by (rule round53_large)
  then have "fl (of_int (a * 2 ^ 54) / 2 ^ 54) = None" by (simp only: fl_grid if_True)
  then show ?thesis by (simp only: e [symmetric])
qed

lemma fallback_number_overflow:
  assumes "2 ^ 1024 \<le> \<bar>a\<bar>"
  shows "fallback_number b crit a = None"
proof -
  have "fl (of_int a) = None" using assms by (rule fl_overflow)
  then show ?thesis by (simp add: fallback_number_def split: option.splits)
qed

lemma fallback_number_beyond:
  "fallback_number 15 False (- 100000000000000000) = Some 30000000000000016"
proof -
  have l: "fl (of_int 15) = Some (of_int 15)" by (rule fl_of_int) simp
  have ea: "(of_int (- 100000000000000000) :: rat) =
      of_int (- 100000000000000000 * 2 ^ 54) / 2 ^ 54" by simp
  have "fl (of_int (- 100000000000000000 * 2 ^ 54) / 2 ^ 54) =
      Some (of_int (- 100000000000000000 * 2 ^ 54) / 2 ^ 54)"
    by (rule fl_exact [where k = 58]) simp_all
  then have a: "fl (of_int (- 100000000000000000)) = Some (of_int (- 100000000000000000))"
    by (simp only: ea [symmetric])
  have rp: "round53 (- 540431955284459500000000000000000) = - 540431955284459520000000000000000"
    by (rule round53_value [where k = 56 and j = "- 7500000000000000"]) simp_all
  have ep: "(of_int (- 100000000000000000) * double_0_3 :: rat) =
      of_int (- 540431955284459500000000000000000) / 2 ^ 54"
    by (simp add: double_0_3_def)
  have p: "fl (of_int (- 100000000000000000) * double_0_3) =
      Some (of_int (- 540431955284459520000000000000000) / 2 ^ 54)"
    unfolding ep by (simp only: fl_grid rp) simp
  have rd: "round53 540431955284459790215977642229760 = 540431955284459808230376151711744"
    by (rule round53_value [where k = 56 and j = 7500000000000004]) simp_all
  have ed: "(of_int 15 - of_int (- 540431955284459520000000000000000) / 2 ^ 54 :: rat) =
      of_int 540431955284459790215977642229760 / 2 ^ 54"
    by simp
  have d: "fl (of_int 15 - of_int (- 540431955284459520000000000000000) / 2 ^ 54) =
      Some (of_int 540431955284459808230376151711744 / 2 ^ 54)"
    unfolding ed by (simp only: fl_grid rd) simp
  have v: "py_int (of_int 540431955284459808230376151711744 / 2 ^ 54) = 30000000000000016"
    by (simp add: py_int_def)
  show ?thesis
    unfolding fallback_number_def
    by (simp only: if_False l a Option.bind.simps p d option.case option.map v)
qed

lemma base_damage_bound:
  fixes s a :: int
  assumes "\<bar>s\<bar> < 2 ^ 40" and "\<bar>a\<bar> < 2 ^ 40"
  shows "\<bar>s + a div 2\<bar> < 2 ^ 41"
proof -
  define h where "h = a div 2"
  have "- \<bar>a\<bar> \<le> h \<and> h \<le> \<bar>a\<bar>" unfolding h_def by (simp add: abs_if) presburger
  then have "\<bar>h\<bar> \<le> \<bar>a\<bar>" by (simp add: abs_le_iff)
  moreover have "\<bar>s + h\<bar> \<le> \<bar>s\<bar> + \<bar>h\<bar>" by (rule abs_triangle_ineq)
  ultimately have "\<bar>s + h\<bar> < 2 ^ 40 + 2 ^ 40" using assms
    by (meson add_strict_mono le_less_trans order.strict_trans2 add_mono order_le_less_trans)
  then show ?thesis by (simp add: h_def)
qed

lemma calculate_damage_fallback:
  assumes "\<bar>strength char\<bar> < 2 ^ 40" and "\<bar>agility char\<bar> < 2 ^ 40"
    and "\<bar>Enemy.armor enemy\<bar> < 2 ^ 40"
  shows "calculate_damage action char enemy None =
     Inr \<lparr>j_damage = Some (max 1
        (((if contains kw_crit (py_lower action) \<or> contains kw_precisely (py_lower action)
           then 15 else 10) * (strength char + agility char div 2)
          - 3 * Enemy.armor enemy) div 10)),
      j_critical = Some (contains kw_crit (py_lower action) \<or>
                         contains kw_precisely (py_lower action)),
      j_description = Some hit_lands\<rparr>"
proof -
  let ?crit = "contains kw_crit (py_lower action) \<or> contains kw_precisely (py_lower action)"
  have "\<bar>strength char + agility char div 2\<bar> < 2 ^ 41"
    using assms(1,2) by (rule base_damage_bound)
  from fallback_number_bounded [OF this assms(3), of ?crit] obtain z where
    z: "fallback_number (strength char + agility char div 2) ?crit (Enemy.armor enemy) = Some z"
    and m: "max 1 z = max 1 (((if ?crit then 15 else 10) * (strength char + agility char div 2)
          - 3 * Enemy.armor enemy) div 10)"
    by blast
  show ?thesis
    unfolding calculate_damage_def Let_def by (simp only: option.case z m)
qed

lemma calculate_damage_beyond_bounds:
  "calculate_damage (ascii ''hit'') hero (bandit\<lparr>Enemy.armor := - 100000000000000000\<rparr>) None =
     Inr \<lparr>j_damage = Some 30000000000000016, j_critical = Some False,
          j_description = Some hit_lands\<rparr> \<and>
   max 1 ((10 * (strength hero + agility hero div 2)
           - 3 * (- 100000000000000000)) div 10) = 30000000000000015"
proof -
  have b: "strength hero + agility hero div 2 = 15"
    by (simp add: hero_def new_Character_def)
  have a: "Enemy.armor (bandit\<lparr>Enemy.armor := - 100000000000000000\<rparr>) = - 100000000000000000"
    by simp
  have "calculate_damage (ascii ''hit'') hero
      (bandit\<lparr>Enemy.armor := - 100000000000000000\<rparr>) None =
     Inr \<lparr>j_damage = Some 30000000000000016, j_critical = Some False,
          j_description = Some hit_lands\<rparr>"
    unfolding calculate_damage_def Let_def
    using hit_not_critical by (simp only: option.case b a fallback_number_beyond) simp
  then show ?thesis by (simp add: b)
qed

lemma process_attack_overflow:
  assumes "get_character db uid = Some char" and "get_battle db uid = Some enemy"
    and "2 ^ 1024 \<le> \<bar>Enemy.armor enemy\<bar>"
  shows "process_attack db uid action None = Inl OverflowError"
proof -
  have "calculate_damage action char enemy None = Inl OverflowError"
    by (simp add: calculate_damage_def Let_def fallback_number_overflow [OF assms(3)])
  then show ?thesis using assms(1,2) by (simp add: process_attack_def)
qed

text \<open>
  C7. An attack for a player without an active battle returns the dictionary with the
  error message and leaves the whole database as it was: no character and no battle is
  written.
\<close>

theorem attack_without_battle:
  "get_battle db uid = None \<Longrightarrow>
   process_attack db uid action parsed = Inr (db, ErrorDict no_active_battle)"
  by (simp add: process_attack_def)


theorem attack_without_battle_witness:
  "get_battle village_db 7 = None \<and>
   process_attack village_db 7 (ascii ''hit'') None =
     Inr (village_db, ErrorDict no_active_battle)"
proof -
  have h: "get_battle village_db 7 = None" by (simp add: sample_defs)
  show ?thesis using h attack_without_battle [OF h] by simp
qed

text \<open>
  C2. In an active battle with judged damage \<open>d\<close> and enemy hit points \<open>h\<close>, the attack is
  resolved with the enemy at \<open>h - d\<close> hit points, and the enemy is defeated exactly when
  \<open>h - d \<le> 0\<close>. On victory the rewards are the enemy's reward fields, the character gains
  them, the battle is cleared, and the character levels up exactly when the experience
  after the reward reaches a hundred times the level before: then the level grows by one,
  the maximum hit points by 20, the hit points are the new maximum and strength and
  agility grow by 2, once. The stored character is given in full, so nothing is applied
  twice. The statement holds for every judged damage, also a negative one.
\<close>

theorem attack_victory:
  assumes "get_character db uid = Some char" and "get_battle db uid = Some enemy"
    and "calculate_damage action char enemy parsed = Inr attack"
    and "j_damage attack = Some d"
    and "j_description attack = Some descr"
  shows "\<exists>db1 r. process_attack db uid action parsed = Inr (db1, ResultDict r) \<and>
     player_damage r = d \<and>
     enemy_defeated r = (Enemy.hp enemy - d \<le> 0) \<and>
     (0 < Enemy.hp enemy - d \<longrightarrow> enemy_hp r = Some (Enemy.hp enemy - d) \<and> rewards r = None \<and> \<not> level_up r) \<and>
     (Enemy.hp enemy - d \<le> 0 \<longrightarrow>
        rewards r = Some (experience_reward enemy, gold_reward enemy) \<and>
        get_battle db1 uid = None \<and>
        level_up r = (level char * 100 \<le> experience char + experience_reward enemy) \<and>
        get_character db1 uid = Some
          (if level char * 100 \<le> experience char + experience_reward enemy
           then char\<lparr>experience := experience char + experience_reward enemy,
                     gold := gold char + gold_reward enemy,
                     level := level char + 1,
                     Character.max_hp := Character.max_hp char + 20,
                     Character.hp := Character.max_hp char + 20,
                     strength := strength char + 2,
                     agility := agility char + 2\<rparr>
           else char\<lparr>experience := experience char + experience_reward enemy,
                     gold := gold char + gold_reward enemy\<rparr>))"
proof (cases "Enemy.hp enemy - d \<le> 0")
  case True
  have uid: "user_id char = uid" using assms(1) by (rule get_character_user_id)
  show ?thesis
    using True uid
    by (simp add: process_attack_resolved [OF assms] victory_def Let_def
        get_character_save_character get_battle_clear_battle)
next
  case False
  obtain db2 where sb: "save_battle db uid (enemy\<lparr>Enemy.hp := Enemy.hp enemy - d\<rparr>) = Inr db2"
    using save_battle_Inr [OF assms(1)] by blast
  show ?thesis
    using False sb
    by (simp add: process_attack_resolved [OF assms] counterattack_def Let_def)
qed



theorem attack_victory_witness:
  "get_character battle_db 7 = Some veteran \<and> get_battle battle_db 7 = Some bandit \<and>
   (\<exists>db1 r. process_attack battle_db 7 (ascii ''hit'') (Some (sample_judgement 60)) =
        Inr (db1, ResultDict r) \<and>
      enemy_defeated r \<and> level_up r \<and> rewards r = Some (20, 10) \<and>
      get_battle db1 7 = None \<and>
      get_character db1 7 = Some
        (veteran\<lparr>experience := 110, gold := 60, level := 2, Character.max_hp := 120,
                 Character.hp := 120, strength := 12, agility := 12\<rparr>))"
proof -
  have h1: "get_character battle_db 7 = Some veteran" by (simp add: sample_defs)
  have h2: "get_battle battle_db 7 = Some bandit" by (simp add: sample_defs)
  have h3: "calculate_damage (ascii ''hit'') veteran bandit (Some (sample_judgement 60)) =
      Inr (sample_judgement 60)"
    by (rule calculate_damage_parsed)
  have h4: "j_damage (sample_judgement 60) = Some 60" by (simp add: sample_judgement_def)
  have h5: "j_description (sample_judgement 60) = Some (ascii ''ok'')"
    by (simp add: sample_judgement_def)
  show ?thesis
    using h1 h2 attack_victory [OF h1 h2 h3 h4 h5]
    by (auto simp add: hero_def veteran_def bandit_def new_Character_def)
qed

text \<open>
  C3. When the enemy survives the attack, the character loses
  \<open>max 1 (enemy damage - character armor)\<close> hit points. If that leaves the character at zero
  or below, the stored character has half of the maximum hit points (floor division),
  gold \<open>max 0 (gold - 20)\<close> and the battle is cleared; otherwise the stored character has
  the reduced hit points and the battle stays, with the enemy's reduced hit points.
\<close>

theorem attack_counterattack:
  assumes "get_character db uid = Some char" and "get_battle db uid = Some enemy"
    and "calculate_damage action char enemy parsed = Inr attack"
    and "j_damage attack = Some d"
    and "j_description attack = Some descr"
    and "0 < Enemy.hp enemy - d"
  shows "\<exists>db1 r. process_attack db uid action parsed = Inr (db1, ResultDict r) \<and>
     enemy_damage r = Some (max 1 (Enemy.damage enemy - Character.armor char)) \<and>
     player_defeated r =
       (Character.hp char - max 1 (Enemy.damage enemy - Character.armor char) \<le> 0) \<and>
     (if Character.hp char - max 1 (Enemy.damage enemy - Character.armor char) \<le> 0
      then get_character db1 uid = Some
             (char\<lparr>Character.hp := Character.max_hp char div 2,
                   gold := max 0 (gold char - 20)\<rparr>) \<and>
           get_battle db1 uid = None
      else get_character db1 uid = Some
             (char\<lparr>Character.hp := Character.hp char
                      - max 1 (Enemy.damage enemy - Character.armor char)\<rparr>) \<and>
           get_battle db1 uid = Some (enemy\<lparr>Enemy.hp := Enemy.hp enemy - d\<rparr>))"
proof -
  have uid: "user_id char = uid" using assms(1) by (rule get_character_user_id)
  obtain db2 where sb: "save_battle db uid (enemy\<lparr>Enemy.hp := Enemy.hp enemy - d\<rparr>) = Inr db2"
    and b2: "\<forall>u. get_battle db2 u =
               (if u = uid then Some (enemy\<lparr>Enemy.hp := Enemy.hp enemy - d\<rparr>) else get_battle db u)"
    using save_battle_Inr [OF assms(1)] by blast
  show ?thesis
    using assms(6) uid sb b2
    by (simp add: process_attack_resolved [OF assms(1-5)] counterattack_def Let_def
        get_character_save_character get_battle_clear_battle)
qed


theorem attack_counterattack_witness:
  "get_character battle_db 7 = Some veteran \<and> get_battle battle_db 7 = Some bandit \<and>
   (\<exists>db1 r. process_attack battle_db 7 (ascii ''hit'') (Some (sample_judgement 10)) =
        Inr (db1, ResultDict r) \<and>
      enemy_damage r = Some 7 \<and> \<not> player_defeated r \<and>
      get_character db1 7 = Some (veteran\<lparr>Character.hp := 93\<rparr>) \<and>
      get_battle db1 7 = Some (bandit\<lparr>Enemy.hp := 50\<rparr>))"
proof -
  have h1: "get_character battle_db 7 = Some veteran" by (simp add: sample_defs)
  have h2: "get_battle battle_db 7 = Some bandit" by (simp add: sample_defs)
  have h3: "calculate_damage (ascii ''hit'') veteran bandit (Some (sample_judgement 10)) =
      Inr (sample_judgement 10)"
    by (rule calculate_damage_parsed)
  have h4: "j_damage (sample_judgement 10) = Some 10" by (simp add: sample_judgement_def)
  have h5: "j_description (sample_judgement 10) = Some (ascii ''ok'')"
    by (simp add: sample_judgement_def)
  have h6: "0 < Enemy.hp bandit - 10" by (simp add: bandit_def)
  show ?thesis
    using h1 h2 attack_counterattack [OF h1 h2 h3 h4 h5 h6]
    by (auto simp add: hero_def veteran_def bandit_def new_Character_def)
qed

text \<open>
  C1 (as amended). When no judgement could be parsed from the generator's answer, the attack of
  a character in a battle is resolved with the fallback: it is critical exactly when the
  lower-cased action text contains one of the two keywords, and the damage is
  \<open>(strength + agility div 2) * (1.5 if critical else 1) - armor * 0.3\<close>, computed in
  double precision, truncated towards zero, and at least 1. When strength, agility and
  the enemy's armor are below \<open>2 ^ 40\<close> in absolute value, that is
  \<open>max 1 ((k * (strength + agility div 2) - 3 * armor) div 10)\<close> with \<open>k = 15\<close> for a
  critical hit and \<open>k = 10\<close> otherwise. For strength 10, agility 10, armor 5 and an
  action without a keyword the damage is 13, not 14.
\<close>

theorem fallback_damage:
  assumes "get_character db uid = Some char" and "get_battle db uid = Some enemy"
    and "\<bar>strength char\<bar> < 2 ^ 40" and "\<bar>agility char\<bar> < 2 ^ 40"
    and "\<bar>Enemy.armor enemy\<bar> < 2 ^ 40"
  shows "\<exists>db1 r. process_attack db uid action None = Inr (db1, ResultDict r) \<and>
     critical r = (contains kw_crit (py_lower action) \<or>
                   contains kw_precisely (py_lower action)) \<and>
     player_damage r =
       max 1 (((if critical r then 15 else 10) * (strength char + agility char div 2)
               - 3 * Enemy.armor enemy) div 10)"
proof -
  let ?crit = "contains kw_crit (py_lower action) \<or> contains kw_precisely (py_lower action)"
  let ?d = "max 1 (((if ?crit then 15 else 10) * (strength char + agility char div 2)
               - 3 * Enemy.armor enemy) div 10)"
  let ?j = "\<lparr>j_damage = Some ?d, j_critical = Some ?crit, j_description = Some hit_lands\<rparr>"
  have cd: "calculate_damage action char enemy None = Inr ?j"
    using assms(3-5) by (rule calculate_damage_fallback)
  have d: "j_damage ?j = Some ?d" by simp
  have e: "j_description ?j = Some hit_lands" by simp
  from process_attack_succeeds [OF assms(1,2) cd d e] obtain db1 r where
    "process_attack db uid action None = Inr (db1, ResultDict r)"
    "player_damage r = ?d" "critical r = ?crit"
    by auto
  then show ?thesis by (intro exI [of _ db1] exI [of _ r]) simp
qed

theorem fallback_damage_witness:
  "get_character battle_db 7 = Some veteran \<and> get_battle battle_db 7 = Some bandit \<and>
   strength veteran = 10 \<and> agility veteran = 10 \<and> Enemy.armor bandit = 5 \<and>
   (\<exists>db1 r. process_attack battle_db 7 (ascii ''hit'') None = Inr (db1, ResultDict r) \<and>
      \<not> critical r \<and> player_damage r = 13)"
proof -
  have h1: "get_character battle_db 7 = Some veteran"
    by (simp add: hero_def veteran_def battle_db_def new_Character_def get_character_def)
  have h2: "get_battle battle_db 7 = Some bandit"
    by (simp add: battle_db_def get_battle_def)
  have st: "strength veteran = 10 \<and> agility veteran = 10 \<and> Enemy.armor bandit = 5"
    by (simp add: hero_def veteran_def bandit_def new_Character_def)
  have h3: "\<bar>strength veteran\<bar> < 2 ^ 40" using st by simp
  have h4: "\<bar>agility veteran\<bar> < 2 ^ 40" using st by simp
  have h5: "\<bar>Enemy.armor bandit\<bar> < 2 ^ 40" using st by simp
  from fallback_damage [OF h1 h2 h3 h4 h5, of "ascii ''hit''"] obtain db1 r where
    "process_attack battle_db 7 (ascii ''hit'') None = Inr (db1, ResultDict r)"
    "critical r = (contains kw_crit (py_lower (ascii ''hit'')) \<or>
                   contains kw_precisely (py_lower (ascii ''hit'')))"
    "player_damage r =
       max 1 (((if critical r then 15 else 10) * (strength veteran + agility veteran div 2)
               - 3 * Enemy.armor bandit) div 10)"
    by blast
  then have "process_attack battle_db 7 (ascii ''hit'') None = Inr (db1, ResultDict r) \<and>
      \<not> critical r \<and> player_damage r = 13"
    using hit_not_critical st by simp
  then show ?thesis using h1 h2 st by blast
qed

theorem fallback_damage_counterexample:
  "(\<exists>j. calculate_damage (ascii ''hit'') hero bandit None = Inr j \<and>
      j_damage j = Some 13 \<and> j_damage j \<noteq> Some 14)"
proof -
  have st: "strength hero = 10 \<and> agility hero = 10 \<and> Enemy.armor bandit = 5"
    by (simp add: hero_def bandit_def new_Character_def)
  have h3: "\<bar>strength hero\<bar> < 2 ^ 40" using st by simp
  have h4: "\<bar>agility hero\<bar> < 2 ^ 40" using st by simp
  have h5: "\<bar>Enemy.armor bandit\<bar> < 2 ^ 40" using st by simp
  show ?thesis
    using hit_not_critical st
    by (simp add: calculate_damage_fallback [OF h3 h4 h5])
qed

section \<open>Starting a battle\<close>

text \<open>
  C8. The enemy created by \<open>start_battle\<close> for a character of level \<open>L\<close> has experience
  reward \<open>20 * L\<close> and gold reward \<open>10 * L\<close>, whatever the generator answered (\<open>parsed\<close> is
  arbitrary), and it is the enemy stored for the player.
\<close>

theorem start_battle_rewards:
  assumes "get_character db uid = Some char"
  shows "\<exists>db1 enemy. start_battle db uid parsed = Inr (db1, char, enemy) \<and>
     experience_reward enemy = 20 * level char \<and>
     gold_reward enemy = 10 * level char \<and>
     get_battle db1 uid = Some enemy"
proof -
  let ?data = "generate_enemy (level char) (current_location char) parsed"
  let ?enemy = "\<lparr>Enemy.name = d_name ?data, hp = d_hp ?data, max_hp = d_hp ?data,
                  armor = d_armor ?data, damage = d_damage ?data,
                  experience_reward = 20 * level char, gold_reward = 10 * level char\<rparr>"
  obtain db2 where "save_battle db uid ?enemy = Inr db2"
    and "\<forall>u. get_battle db2 u = (if u = uid then Some ?enemy else get_battle db u)"
    using save_battle_Inr [OF assms] by blast
  then show ?thesis
    using assms by (simp add: start_battle_def Let_def)
qed

theorem start_battle_rewards_witness:
  "get_character village_db 7 = Some hero \<and>
   (\<exists>db1 enemy. start_battle village_db 7
        (Some \<lparr>js_name = None, js_hp = Some 500, js_armor = Some 1, js_damage = None,
               js_description = None\<rparr>) = Inr (db1, hero, enemy) \<and>
      experience_reward enemy = 20 \<and> gold_reward enemy = 10 \<and>
      get_battle db1 7 = Some enemy)"
proof -
  have h: "get_character village_db 7 = Some hero" by (simp add: sample_defs)
  show ?thesis
    using h start_battle_rewards [OF h]
    by (auto simp add: hero_def new_Character_def)
qed


section \<open>Purchases\<close>

lemma process_action_purchase:
  assumes "get_character db uid = Some char"
    and "re_search purchase_pattern reply = Some [g1, g2, g3, g4]"
  shows "process_action db uid action reply =
     (case purchase_branch db uid char g1 g2 g3 g4 of
        Inl e \<Rightarrow> Inl e
      | Inr (db1, purchase_info) \<Rightarrow>
          Inr (db1,
            \<lparr>result_text = reply,
             has_enemy = (contains enemy_marker reply \<or>
                (contains kw_vrag (py_lower reply) \<and>
                 (\<exists>word \<in> set aggression_verbs. contains word (py_lower reply)))),
             purchase = purchase_info\<rparr>))"
  using assms by (simp add: process_action_def)

text \<open>For a player with a character, \<open>process_action\<close> returns for every answer of the
  generator: a line that is not matched is no error.\<close>

lemma purchase_branch_Inr:
  "get_character db uid = Some c \<Longrightarrow>
   \<exists>db1 info. purchase_branch db uid char g1 g2 g3 g4 = Inr (db1, info)"
  by (simp add: purchase_branch_def Let_def add_item_Inr split: prod.splits)

lemma process_action_never_raises:
  assumes "get_character db uid = Some char"
  shows "\<exists>db1 r. process_action db uid action reply = Inr (db1, r)"
proof (cases "re_search purchase_pattern reply")
  case None
  then show ?thesis using assms by (simp add: process_action_def)
next
  case (Some gs)
  then obtain g1 g2 g3 g4 where gs: "gs = [g1, g2, g3, g4]"
    using purchase_match_shape by blast
  obtain db1 info where "purchase_branch db uid char g1 g2 g3 g4 = Inr (db1, info)"
    using purchase_branch_Inr [OF assms] by blast
  then show ?thesis
    using Some gs by (simp add: process_action_purchase [OF assms])
qed

text \<open>
  C4. For a purchase line that was matched, with price \<open>p\<close> the number written by its
  second group, and a character with gold \<open>g\<close>: if \<open>p \<le> g\<close> the purchase succeeds with
  \<open>gold_left = g - p\<close>, the stored character has gold \<open>g - p\<close>, and the inventory table is
  the old one with one new row, the item with the name, type, description and the three
  inferred stat fields; otherwise the purchase fails with \<open>gold_needed = p - g\<close> and the
  database is returned as it was.
\<close>

theorem purchase_resolution:
  assumes "get_character db uid = Some char"
    and "re_search purchase_pattern reply = Some [g1, g2, g3, g4]"
  shows "if int_of_digits g2 \<le> gold char
     then \<exists>db1 r dmg arm hl.
            process_action db uid action reply = Inr (db1, r) \<and>
            purchase r = Some (PurchaseSuccess (strip g1) (int_of_digits g2)
                                 (gold char - int_of_digits g2)) \<and>
            get_character db1 uid = Some (char\<lparr>gold := gold char - int_of_digits g2\<rparr>) \<and>
            infer_stats (strip g4) = (dmg, arm, hl) \<and>
            inventory db1 = inventory db @
              [(uid, new_Item (strip g1) (strip g3) dmg arm hl (strip g4))]
     else \<exists>r. process_action db uid action reply = Inr (db, r) \<and>
            purchase r = Some (PurchaseFailure (strip g1) (int_of_digits g2)
                                 (int_of_digits g2 - gold char))"
proof -
  have uid: "user_id char = uid" using assms(1) by (rule get_character_user_id)
  obtain dmg arm hl where st: "infer_stats (strip g4) = (dmg, arm, hl)"
    by (cases "infer_stats (strip g4)") auto
  show ?thesis
    using uid st
    by (simp add: process_action_purchase [OF assms] purchase_branch_def Let_def
        add_item_Inr [OF assms(1)] get_character_save_character)
qed

theorem purchase_resolution_witness:
  "get_character village_db 7 = Some hero \<and>
   re_search purchase_pattern
     (purchase_label @ ascii '' Iron Sword |30| weapon| damage 8'') =
     Some [ascii ''Iron Sword '', ascii ''30'', ascii ''weapon'', ascii ''damage 8''] \<and>
   (\<exists>db1 r. process_action village_db 7 []
        (purchase_label @ ascii '' Iron Sword |30| weapon| damage 8'') = Inr (db1, r) \<and>
      purchase r = Some (PurchaseSuccess (ascii ''Iron Sword'') 30 20) \<and>
      get_character db1 7 = Some (hero\<lparr>gold := 20\<rparr>) \<and>
      inventory db1 =
        [(7, new_Item (ascii ''Iron Sword'') (ascii ''weapon'') 8 0 0 (ascii ''damage 8''))])"
proof -
  have h1: "get_character village_db 7 = Some hero" by (simp add: sample_defs)
  have f: "strip (ascii ''Iron Sword '') = ascii ''Iron Sword''"
    "strip (ascii ''weapon'') = ascii ''weapon''"
    "strip (ascii ''damage 8'') = ascii ''damage 8''"
    "int_of_digits (ascii ''30'') = 30"
    by (simp_all add: text_defs)
  have g: "gold hero = 50" "inventory village_db = []"
    by (simp_all add: hero_def new_Character_def village_db_def)
  have st: "infer_stats (ascii ''damage 8'') = (8, 0, 0)"
    by (simp add: infer_stats_def first_int_eq text_defs keyword_defs)
  show ?thesis
    using h1 compact_line_groups purchase_resolution [OF h1 compact_line_groups, of "[]"]
    by (auto simp add: f g st)
qed

text \<open>
  C5. The purchase line with the separators written as in the prompt of
  \<open>process_action\<close> (space, pipe, space) is not matched: the pattern allows whitespace
  after a pipe but not before the second and the third, so the digits and the type must
  be followed by the pipe at once. The action returns without a purchase and the database
  is unchanged.
\<close>

theorem spaced_purchase_line_not_parsed:
  "process_action village_db 7 []
     (purchase_label @ ascii '' Iron Sword | 30 | weapon | damage 8'') =
   Inr (village_db,
        \<lparr>result_text = purchase_label @ ascii '' Iron Sword | 30 | weapon | damage 8'',
         has_enemy = False, purchase = None\<rparr>)"
  by (simp add: process_action_def spaced_line_no_match sample_defs)
     (simp add: text_defs keyword_defs)


text \<open>
  C6 (as amended). The three stat fields of the item created by a successful purchase are inferred
  independently of each other: a field is the first integer of the stats text (zero when
  the text has no digits) when one of the field's keywords occurs in the lower-cased
  text, and zero otherwise. With no keyword all three are zero; with keywords of several
  families several fields are set, all to the same number.
\<close>

theorem stat_inference:
  assumes "get_character db uid = Some char"
    and "re_search purchase_pattern reply = Some [g1, g2, g3, g4]"
    and "int_of_digits g2 \<le> gold char"
  shows "\<exists>db1 r item.
     process_action db uid action reply = Inr (db1, r) \<and>
     inventory db1 = inventory db @ [(uid, item)] \<and>
     Item.damage item =
       (if contains kw_uron (py_lower (strip g4)) \<or>
           contains (ascii ''damage'') (py_lower (strip g4))
        then (case first_int (strip g4) of Some n \<Rightarrow> n | None \<Rightarrow> 0) else 0) \<and>
     armor_bonus item =
       (if contains kw_bronya (py_lower (strip g4)) \<or>
           contains (ascii ''armor'') (py_lower (strip g4))
        then (case first_int (strip g4) of Some n \<Rightarrow> n | None \<Rightarrow> 0) else 0) \<and>
     heal item =
       (if contains kw_lechenie (py_lower (strip g4)) \<or>
           contains (ascii ''heal'') (py_lower (strip g4)) \<or>
           contains (ascii ''hp'') (py_lower (strip g4))
        then (case first_int (strip g4) of Some n \<Rightarrow> n | None \<Rightarrow> 0) else 0)"
proof -
  obtain dmg arm hl where st: "infer_stats (strip g4) = (dmg, arm, hl)"
    by (cases "infer_stats (strip g4)") auto
  let ?item = "new_Item (strip g1) (strip g3) dmg arm hl (strip g4)"
  let ?db1 = "save_character (db\<lparr>inventory := inventory db @ [(uid, ?item)]\<rparr>)
                (char\<lparr>gold := gold char - int_of_digits g2\<rparr>)"
  let ?r = "\<lparr>result_text = reply,
            has_enemy = (contains enemy_marker reply \<or>
               (contains kw_vrag (py_lower reply) \<and>
                (\<exists>word \<in> set aggression_verbs. contains word (py_lower reply)))),
            purchase = Some (PurchaseSuccess (strip g1) (int_of_digits g2)
                               (gold char - int_of_digits g2))\<rparr>"
  have pa: "process_action db uid action reply = Inr (?db1, ?r)"
    using st assms(3)
    by (simp add: process_action_purchase [OF assms(1,2)] purchase_branch_def Let_def
        add_item_Inr [OF assms(1)])
  have rows: "inventory ?db1 = inventory db @ [(uid, ?item)]"
    by simp
  have sel: "Item.damage ?item = dmg" "armor_bonus ?item = arm" "heal ?item = hl"
    by (simp_all add: new_Item_def)
  have d: "dmg =
       (if contains kw_uron (py_lower (strip g4)) \<or>
           contains (ascii ''damage'') (py_lower (strip g4))
        then (case first_int (strip g4) of Some n \<Rightarrow> n | None \<Rightarrow> 0) else 0)"
    using st by (simp add: infer_stats_def Let_def)
  have a: "arm =
       (if contains kw_bronya (py_lower (strip g4)) \<or>
           contains (ascii ''armor'') (py_lower (strip g4))
        then (case first_int (strip g4) of Some n \<Rightarrow> n | None \<Rightarrow> 0) else 0)"
    using st by (simp add: infer_stats_def Let_def)
  have h: "hl =
       (if contains kw_lechenie (py_lower (strip g4)) \<or>
           contains (ascii ''heal'') (py_lower (strip g4)) \<or>
           contains (ascii ''hp'') (py_lower (strip g4))
        then (case first_int (strip g4) of Some n \<Rightarrow> n | None \<Rightarrow> 0) else 0)"
    using st by (simp add: infer_stats_def Let_def)
  show ?thesis
    using pa rows trans [OF sel(1) d] trans [OF sel(2) a] trans [OF sel(3) h] by blast
qed

theorem stat_inference_witness:
  "get_character village_db 7 = Some hero \<and>
   int_of_digits (ascii ''30'') \<le> gold hero \<and>
   (\<exists>db1 r item. process_action village_db 7 []
        (purchase_label @ ascii '' Iron Sword |30| weapon| damage 8'') = Inr (db1, r) \<and>
      inventory db1 = [(7, item)] \<and>
      Item.damage item = 8 \<and> armor_bonus item = 0 \<and> heal item = 0)"
proof -
  have h1: "get_character village_db 7 = Some hero" by (simp add: sample_defs)
  have h3: "int_of_digits (ascii ''30'') \<le> gold hero"
    by (simp add: text_defs hero_def new_Character_def)
  have f: "strip (ascii ''damage 8'') = ascii ''damage 8''" by (simp add: text_defs)
  have k: "contains (ascii ''damage'') (py_lower (ascii ''damage 8''))"
    "\<not> contains kw_bronya (py_lower (ascii ''damage 8''))"
    "\<not> contains (ascii ''armor'') (py_lower (ascii ''damage 8''))"
    "\<not> contains kw_lechenie (py_lower (ascii ''damage 8''))"
    "\<not> contains (ascii ''heal'') (py_lower (ascii ''damage 8''))"
    "\<not> contains (ascii ''hp'') (py_lower (ascii ''damage 8''))"
    "first_int (ascii ''damage 8'') = Some 8"
    by (simp_all add: first_int_eq text_defs keyword_defs)
  have g: "inventory village_db = []" by (simp add: village_db_def)
  show ?thesis
    using h1 h3 stat_inference [OF h1 compact_line_groups h3, of "[]"]
    by (auto simp add: f k g)
qed

text \<open>The stats text \<open>damage 5 armor\<close> has a damage keyword and an armor keyword: the
  created item has damage 5 and armor bonus 5.\<close>

theorem stat_inference_counterexample:
  "process_action village_db 7 []
     (purchase_label @ ascii '' Axe|10|weapon|damage 5 armor'') =
   Inr (\<lparr>characters = [hero\<lparr>gold := 40\<rparr>],
         inventory = [(7, new_Item (ascii ''Axe'') (ascii ''weapon'') 5 5 0
                           (ascii ''damage 5 armor''))],
         active_battles = []\<rparr>,
        \<lparr>result_text = purchase_label @ ascii '' Axe|10|weapon|damage 5 armor'',
         has_enemy = False,
         purchase = Some (PurchaseSuccess (ascii ''Axe'') 10 40)\<rparr>)"
proof -
  have gc: "get_character village_db 7 = Some hero" by (simp add: sample_defs)
  have s1: "strip (ascii ''Axe'') = ascii ''Axe''" by (simp add: text_defs)
  have s3: "strip (ascii ''weapon'') = ascii ''weapon''" by (simp add: text_defs)
  have s4: "strip (ascii ''damage 5 armor'') = ascii ''damage 5 armor''"
    by (simp add: text_defs)
  have pr: "int_of_digits (ascii ''10'') = 10" by (simp add: text_defs)
  have g: "gold hero = 50" "user_id hero = 7" by (simp_all add: hero_def new_Character_def)
  have pb: "purchase_branch village_db 7 hero (ascii ''Axe'') (ascii ''10'')
              (ascii ''weapon'') (ascii ''damage 5 armor'') =
            Inr (\<lparr>characters = [hero\<lparr>gold := 40\<rparr>],
                   inventory = [(7, new_Item (ascii ''Axe'') (ascii ''weapon'') 5 5 0
                           (ascii ''damage 5 armor''))],
                   active_battles = []\<rparr>,
                 Some (PurchaseSuccess (ascii ''Axe'') 10 40))"
    using g
    by (simp add: purchase_branch_def s1 s3 s4 pr infer_damage_armor
        add_item_Inr [OF gc] save_character_def)
       (simp add: village_db_def Let_def)
  show ?thesis
    using axe_line_no_enemy
    by (simp add: process_action_purchase [OF gc axe_line_groups] pb)
qed




section \<open>The character invariant\<close>

text \<open>Each table operation and each branch of the engine keeps \<open>db_inv\<close>, in every
  database, whatever the scene and the statistics of its characters.\<close>

lemma save_character_inv:
  "db_inv db \<Longrightarrow> char_inv c \<Longrightarrow> db_inv (save_character db c)"
  by (auto simp add: db_inv_def save_character_def)

lemma clear_battle_inv: "db_inv db \<Longrightarrow> db_inv (clear_battle db uid)"
  by (auto simp add: db_inv_def clear_battle_def)

lemma save_battle_inv:
  "db_inv db \<Longrightarrow> 0 \<le> gold_reward e \<Longrightarrow> save_battle db uid e = Inr db1 \<Longrightarrow> db_inv db1"
  by (auto simp add: db_inv_def save_battle_def split: if_splits)

lemma add_item_inv: "db_inv db \<Longrightarrow> add_item db uid item = Inr db1 \<Longrightarrow> db_inv db1"
  by (auto simp add: db_inv_def add_item_def split: if_splits)

lemma db_inv_character: "db_inv db \<Longrightarrow> get_character db uid = Some c \<Longrightarrow> char_inv c"
  by (auto simp add: db_inv_def dest: get_character_mem)

lemma db_inv_battle: "db_inv db \<Longrightarrow> get_battle db uid = Some e \<Longrightarrow> 0 \<le> gold_reward e"
  by (auto simp add: db_inv_def get_battle_def dest!: find_Some_mem)

lemma victory_inv:
  assumes "db_inv db" and "char_inv char" and "0 \<le> gold_reward enemy"
    and "victory db uid char enemy result = (db1, r)"
  shows "db_inv db1"
proof -
  let ?c1 = "char\<lparr>experience := experience char + experience_reward enemy,
                  gold := gold char + gold_reward enemy\<rparr>"
  let ?c2 = "?c1\<lparr>level := level ?c1 + 1,
                   Character.max_hp := Character.max_hp ?c1 + 20,
                   Character.hp := Character.max_hp ?c1 + 20,
                   strength := strength ?c1 + 2, agility := agility ?c1 + 2\<rparr>"
  have c1: "char_inv ?c1" using assms(2,3) by (simp add: char_inv_def)
  have c2: "char_inv ?c2" using assms(2,3) by (simp add: char_inv_def)
  have "db1 = clear_battle (save_character db
            (if level ?c1 * 100 \<le> experience ?c1 then ?c2 else ?c1)) uid"
    using assms(4) by (simp add: victory_def Let_def)
  then show ?thesis
    using c1 c2 assms(1) by (simp add: clear_battle_inv save_character_inv)
qed

lemma half_bounds: "0 \<le> (x::int) \<Longrightarrow> 0 \<le> x div 2 \<and> x div 2 \<le> x"
  by presburger

lemma counterattack_inv:
  assumes "db_inv db" and "char_inv char" and "0 \<le> gold_reward enemy"
    and "counterattack db uid char enemy result = Inr (db1, r)"
  shows "db_inv db1"
proof -
  let ?dmg = "max 1 (Enemy.damage enemy - Character.armor char)"
  let ?c1 = "char\<lparr>Character.hp := Character.hp char - ?dmg\<rparr>"
  let ?c2 = "?c1\<lparr>Character.hp := Character.max_hp ?c1 div 2, gold := max 0 (gold ?c1 - 20)\<rparr>"
  show ?thesis
  proof (cases "Character.hp char - ?dmg \<le> 0")
    case True
    have "0 \<le> Character.max_hp char" using assms(2) by (simp add: char_inv_def)
    then have "char_inv ?c2" using assms(2) half_bounds [of "Character.max_hp char"]
      by (simp add: char_inv_def)
    moreover have "db1 = save_character (clear_battle db uid) ?c2"
      using assms(4) True by (simp add: counterattack_def Let_def)
    ultimately show ?thesis using assms(1) by (simp add: clear_battle_inv save_character_inv)
  next
    case False
    have c1: "char_inv ?c1" using assms(2) False by (simp add: char_inv_def) arith
    from assms(4) False obtain db2 where sb: "save_battle db uid enemy = Inr db2"
      and db1: "db1 = save_character db2 ?c1"
      by (auto simp add: counterattack_def Let_def split: sum.splits)
    have "db_inv db2" using save_battle_inv [OF assms(1,3) sb] .
    then show ?thesis using c1 db1 by (simp add: save_character_inv)
  qed
qed

lemma process_attack_inv:
  assumes "db_inv db" and "process_attack db uid action parsed = Inr (db1, r)"
  shows "db_inv db1"
proof (cases "get_battle db uid")
  case None
  then show ?thesis using assms by (simp add: process_attack_def)
next
  case (Some enemy)
  note gb = Some
  show ?thesis
  proof (cases "get_character db uid")
    case None
    then show ?thesis using assms gb by (simp add: process_attack_def)
  next
    case (Some char)
    have ci: "char_inv char" using db_inv_character [OF assms(1) Some] .
    have gr: "0 \<le> gold_reward enemy" using db_inv_battle [OF assms(1) gb] .
    obtain attack d descr where cd: "calculate_damage action char enemy parsed = Inr attack"
      and jd: "j_damage attack = Some d" and jx: "j_description attack = Some descr"
      using assms(2) gb Some
      by (auto simp add: process_attack_def Let_def split: option.splits sum.splits)
    let ?e1 = "enemy\<lparr>Enemy.hp := Enemy.hp enemy - d\<rparr>"
    have gr1: "0 \<le> gold_reward ?e1" using gr by simp
    show ?thesis
    proof (cases "Enemy.hp enemy - d \<le> 0")
      case True
      with assms(2) obtain res r1 where "victory db uid char ?e1 res = (db1, r1)"
        by (auto simp add: process_attack_resolved [OF Some gb cd jd jx] Let_def
            split: prod.splits)
      then show ?thesis using victory_inv [OF assms(1) ci gr1] by blast
    next
      case False
      with assms(2) obtain res r1 where "counterattack db uid char ?e1 res = Inr (db1, r1)"
        by (auto simp add: process_attack_resolved [OF Some gb cd jd jx] Let_def
            split: prod.splits sum.splits)
      then show ?thesis using counterattack_inv [OF assms(1) ci gr1] by blast
    qed
  qed
qed


lemma purchase_branch_inv:
  assumes "db_inv db" and "char_inv char"
    and "purchase_branch db uid char g1 g2 g3 g4 = Inr (db1, info)"
  shows "db_inv db1"
proof (cases "int_of_digits g2 \<le> gold char")
  case True
  let ?c1 = "char\<lparr>gold := gold char - int_of_digits g2\<rparr>"
  have c1: "char_inv ?c1" using assms(2) True by (simp add: char_inv_def)
  from assms(3) True obtain item db2 where ai: "add_item db uid item = Inr db2"
    and db1: "db1 = save_character db2 ?c1"
    by (auto simp add: purchase_branch_def Let_def split: prod.splits sum.splits)
  have "db_inv db2" using add_item_inv [OF assms(1) ai] .
  then show ?thesis using c1 db1 by (simp add: save_character_inv)
next
  case False
  then show ?thesis using assms(1,3) by (simp add: purchase_branch_def Let_def)
qed

lemma process_action_inv:
  assumes "db_inv db" and "process_action db uid action reply = Inr (db1, r)"
  shows "db_inv db1"
proof (cases "get_character db uid")
  case None
  then show ?thesis using assms(2) by (simp add: process_action_def)
next
  case (Some char)
  have ci: "char_inv char" using db_inv_character [OF assms(1) Some] .
  from assms(2) Some have
    "db1 = db \<or> (\<exists>g1 g2 g3 g4 info. purchase_branch db uid char g1 g2 g3 g4 = Inr (db1, info))"
    by (auto simp add: process_action_def split: option.splits list.splits sum.splits)
  then show ?thesis using assms(1) ci purchase_branch_inv by blast
qed

lemma start_battle_inv:
  assumes "db_inv db" and "start_battle db uid parsed = Inr (db1, c, e)"
  shows "db_inv db1"
proof (cases "get_character db uid")
  case None
  then show ?thesis using assms(2) by (simp add: start_battle_def)
next
  case (Some char)
  have "1 \<le> level char" using db_inv_character [OF assms(1) Some] by (simp add: char_inv_def)
  then have "0 \<le> gold_reward e"
    using assms(2) Some by (auto simp add: start_battle_def Let_def split: sum.splits)
  moreover have "save_battle db uid e = Inr db1"
    using assms(2) Some by (auto simp add: start_battle_def Let_def split: sum.splits)
  ultimately show ?thesis using save_battle_inv [OF assms(1)] by blast
qed

lemma create_character_inv:
  assumes "db_inv db" and "create_character db uid nm = Inr (db1, c)"
  shows "db_inv db1"
proof -
  have ci: "char_inv (new_Character uid nm)" by (simp add: char_inv_def new_Character_def)
  have i0: "db_inv (save_character db (new_Character uid nm))"
    using assms(1) ci by (rule save_character_inv)
  from assms(2) obtain i1 i2 i3 db2 db3 where
    "add_item (save_character db (new_Character uid nm)) uid i1 = Inr db2"
    "add_item db2 uid i2 = Inr db3" "add_item db3 uid i3 = Inr db1"
    by (auto simp add: create_character_def Let_def split: sum.splits)
  then show ?thesis using i0 add_item_inv by blast
qed

lemma empty_database_inv: "db_inv empty_database"
  by (simp add: db_inv_def empty_database_def)

lemma market_attack:
  "\<exists>r. process_attack market_db 7 (ascii ''hit'') (Some (sample_judgement 10)) =
     Inr (market_db\<lparr>characters := [explorer\<lparr>Character.hp := 96\<rparr>],
                    active_battles := [(7, bandit\<lparr>Enemy.hp := 50\<rparr>)]\<rparr>, r)"
  by (simp add: process_attack_def counterattack_def market_db_def explorer_def bandit_def
      hero_def save_battle_def save_character_def get_character_def get_battle_def
      new_Character_def calculate_damage_def sample_judgement_def Let_def)

text \<open>
  C9. Let every character of the database satisfy \<open>0 \<le> hp \<le> max_hp\<close>, \<open>0 \<le> gold\<close> and
  \<open>1 \<le> level\<close>, and let no stored enemy have a negative gold reward (\<open>db_inv\<close>; the empty
  tables satisfy it, and \<open>start_battle\<close> sets the reward to ten times the level). Then after
  an attack resolution, a purchase resolution, a battle start or a character creation,
  whatever the generator answered and whatever the scene of the character, the database
  satisfies \<open>db_inv\<close> again: every stored character satisfies the invariant, and so do the
  character that \<open>create_character\<close> returns and the one that \<open>start_battle\<close> returns.
\<close>

theorem character_invariant:
  assumes "db_inv db"
  shows "(\<forall>db1 r. process_attack db uid action judged = Inr (db1, r) \<longrightarrow>
        db_inv db1 \<and> (\<forall>c \<in> set (characters db1). char_inv c)) \<and>
     (\<forall>db1 r. process_action db uid action reply = Inr (db1, r) \<longrightarrow>
        db_inv db1 \<and> (\<forall>c \<in> set (characters db1). char_inv c)) \<and>
     (\<forall>db1 c e. start_battle db uid parsed = Inr (db1, c, e) \<longrightarrow>
        char_inv c \<and> db_inv db1 \<and> (\<forall>c \<in> set (characters db1). char_inv c)) \<and>
     (\<forall>db1 c. create_character db uid nm = Inr (db1, c) \<longrightarrow>
        char_inv c \<and> db_inv db1 \<and> (\<forall>c \<in> set (characters db1). char_inv c))"
proof -
  have chars: "\<And>d. db_inv d \<Longrightarrow> \<forall>c \<in> set (characters d). char_inv c"
    by (simp add: db_inv_def)
  have new: "\<And>db1 c. create_character db uid nm = Inr (db1, c) \<Longrightarrow> char_inv c"
    by (auto simp add: create_character_def Let_def char_inv_def new_Character_def
        split: sum.splits)
  have old: "\<And>db1 c e. start_battle db uid parsed = Inr (db1, c, e) \<Longrightarrow> char_inv c"
  proof -
    fix db1 c e
    assume "start_battle db uid parsed = Inr (db1, c, e)"
    then have "get_character db uid = Some c"
      by (auto simp add: start_battle_def Let_def split: option.splits sum.splits)
    with assms show "char_inv c" by (rule db_inv_character)
  qed
  have a: "\<And>db1 r. process_attack db uid action judged = Inr (db1, r) \<Longrightarrow> db_inv db1"
    using assms by (rule process_attack_inv)
  have b: "\<And>db1 r. process_action db uid action reply = Inr (db1, r) \<Longrightarrow> db_inv db1"
    using assms by (rule process_action_inv)
  have c: "\<And>db1 c e. start_battle db uid parsed = Inr (db1, c, e) \<Longrightarrow> db_inv db1"
    using assms by (rule start_battle_inv)
  have d: "\<And>db1 c. create_character db uid nm = Inr (db1, c) \<Longrightarrow> db_inv db1"
    using assms by (rule create_character_inv)
  show ?thesis
    using a b c d new old chars by blast
qed

theorem character_invariant_witness:
  "db_inv market_db \<and> location_state explorer = ascii ''A market square.'' \<and>
   (\<exists>db1 r. process_attack market_db 7 (ascii ''hit'') (Some (sample_judgement 10)) =
        Inr (db1, r) \<and>
      characters db1 = [explorer\<lparr>Character.hp := 96\<rparr>] \<and>
      db_inv db1 \<and> char_inv (explorer\<lparr>Character.hp := 96\<rparr>))"
proof -
  have inv: "db_inv market_db"
    by (simp add: db_inv_def char_inv_def market_db_def explorer_def hero_def bandit_def
        new_Character_def)
  have loc: "location_state explorer = ascii ''A market square.''"
    by (simp add: explorer_def)
  from market_attack obtain r where
    pa: "process_attack market_db 7 (ascii ''hit'') (Some (sample_judgement 10)) =
     Inr (market_db\<lparr>characters := [explorer\<lparr>Character.hp := 96\<rparr>],
                    active_battles := [(7, bandit\<lparr>Enemy.hp := 50\<rparr>)]\<rparr>, r)"
    by blast
  from character_invariant [OF inv, of 7 "ascii ''hit''" "Some (sample_judgement 10)"] pa
  have post: "db_inv (market_db\<lparr>characters := [explorer\<lparr>Character.hp := 96\<rparr>],
                    active_battles := [(7, bandit\<lparr>Enemy.hp := 50\<rparr>)]\<rparr>) \<and>
     (\<forall>c \<in> set (characters (market_db\<lparr>characters := [explorer\<lparr>Character.hp := 96\<rparr>],
                    active_battles := [(7, bandit\<lparr>Enemy.hp := 50\<rparr>)]\<rparr>)). char_inv c)"
    by blast
  then have "char_inv (explorer\<lparr>Character.hp := 96\<rparr>)" by simp
  then show ?thesis using inv loc pa post by auto
qed

section \<open>One battle per player\<close>

lemma filter_key_none: "\<forall>r \<in> set rs. fst r \<noteq> u \<Longrightarrow> filter (\<lambda>r. fst r = u) rs = []"
  by (induction rs) auto

lemma key_not_in_rows: "k \<notin> set (map fst rs) \<Longrightarrow> \<forall>r \<in> set rs. fst r \<noteq> k"
  by (induction rs) auto

lemma distinct_filter_key:
  "distinct (map fst rs) \<Longrightarrow> length (filter (\<lambda>r. fst r = u) rs) \<le> 1"
proof (induction rs)
  case Nil
  then show ?case by simp
next
  case (Cons a rs)
  show ?case
  proof (cases "fst a = u")
    case True
    from Cons.prems True have "u \<notin> set (map fst rs)" by auto
    then have "\<forall>r \<in> set rs. fst r \<noteq> u" by (rule key_not_in_rows)
    then have "filter (\<lambda>r. fst r = u) rs = []" by (rule filter_key_none)
    with True show ?thesis by simp
  next
    case False
    with Cons show ?thesis by simp
  qed
qed

lemma fst_update_comp: "fst \<circ> (\<lambda>r. if fst r = u then (u, e) else r) = fst"
  by (auto simp add: fun_eq_iff)

lemma filter_update_other:
  "\<forall>r \<in> set rs. fst r \<noteq> u \<Longrightarrow>
   filter (\<lambda>r. fst r = u) (map (\<lambda>r. if fst r = u then (u, e) else r) rs) = []"
  by (induction rs) auto

lemma filter_update_key:
  "distinct (map fst rs) \<Longrightarrow> \<exists>r \<in> set rs. fst r = u \<Longrightarrow>
   filter (\<lambda>r. fst r = u) (map (\<lambda>r. if fst r = u then (u, e) else r) rs) = [(u, e)]"
proof (induction rs)
  case Nil
  then show ?case by simp
next
  case (Cons a rs)
  show ?case
  proof (cases "fst a = u")
    case True
    from Cons.prems(1) True have "u \<notin> set (map fst rs)" by auto
    then have "\<forall>r \<in> set rs. fst r \<noteq> u" by (rule key_not_in_rows)
    then show ?thesis using True by (simp add: filter_update_other)
  next
    case False
    with Cons show ?thesis by auto
  qed
qed

lemma save_battle_single:
  assumes "one_battle_each db" and "save_battle db uid e = Inr db1"
  shows "one_battle_each db1 \<and> stored_enemies db1 uid = [e]"
proof (cases "\<exists>r \<in> set (active_battles db). fst r = uid")
  case True
  have "active_battles db1 =
      map (\<lambda>r. if fst r = uid then (uid, e) else r) (active_battles db)"
    using assms(2) True by (auto simp add: save_battle_def split: if_splits)
  then show ?thesis
    using assms(1) True
    by (simp add: one_battle_each_def stored_enemies_def fst_update_comp filter_update_key)
next
  case False
  have rows: "active_battles db1 = active_battles db @ [(uid, e)]"
    using assms(2) False by (auto simp add: save_battle_def split: if_splits)
  have "filter (\<lambda>r. fst r = uid) (active_battles db) = []"
    using False by (simp add: filter_key_none)
  then show ?thesis
    using assms(1) False rows
    by (auto simp add: one_battle_each_def stored_enemies_def)
qed

lemma clear_battle_single:
  assumes "one_battle_each db"
  shows "one_battle_each (clear_battle db uid) \<and> stored_enemies (clear_battle db uid) uid = []"
  using assms
  by (simp add: one_battle_each_def stored_enemies_def clear_battle_def distinct_map_filter)

lemma save_character_battles [simp]:
  "active_battles (save_character db c) = active_battles db"
  by (simp add: save_character_def)

lemma start_battle_single:
  assumes "one_battle_each db" and "start_battle db uid parsed = Inr (db1, c, e)"
  shows "one_battle_each db1 \<and> stored_enemies db1 uid = [e]"
proof -
  from assms(2) have "save_battle db uid e = Inr db1"
    by (auto simp add: start_battle_def Let_def split: option.splits sum.splits)
  with assms(1) show ?thesis by (rule save_battle_single)
qed

lemma victory_single:
  assumes "one_battle_each db" and "victory db uid char enemy result = (db1, r)"
  shows "one_battle_each db1"
proof -
  from assms(2) obtain c2 where "db1 = clear_battle (save_character db c2) uid"
    by (auto simp add: victory_def Let_def)
  moreover have "one_battle_each (save_character db c2)"
    using assms(1) by (simp add: one_battle_each_def)
  ultimately show ?thesis using clear_battle_single by blast
qed

lemma counterattack_single:
  assumes "one_battle_each db" and "counterattack db uid char enemy result = Inr (db1, r)"
  shows "one_battle_each db1"
proof -
  from assms(2) have
    "(\<exists>c2. db1 = save_character (clear_battle db uid) c2) \<or>
     (\<exists>db2 c1. save_battle db uid enemy = Inr db2 \<and> db1 = save_character db2 c1)"
    by (auto simp add: counterattack_def Let_def split: if_splits sum.splits)
  then show ?thesis
  proof
    assume "\<exists>c2. db1 = save_character (clear_battle db uid) c2"
    then show ?thesis
      using clear_battle_single [OF assms(1), of uid] by (auto simp add: one_battle_each_def)
  next
    assume "\<exists>db2 c1. save_battle db uid enemy = Inr db2 \<and> db1 = save_character db2 c1"
    then show ?thesis
      using save_battle_single [OF assms(1)] by (auto simp add: one_battle_each_def)
  qed
qed

lemma process_attack_single:
  assumes "one_battle_each db" and "process_attack db uid action parsed = Inr (db1, r)"
  shows "one_battle_each db1"
proof -
  from assms(2) have
    "db1 = db \<or> (\<exists>char enemy result r1. victory db uid char enemy result = (db1, r1)) \<or>
     (\<exists>char enemy result r1. counterattack db uid char enemy result = Inr (db1, r1))"
    by (auto simp add: process_attack_def Let_def
        split: option.splits if_splits prod.splits sum.splits)
  then show ?thesis
    using assms(1) victory_single counterattack_single by blast
qed

lemma process_action_single:
  assumes "one_battle_each db" and "process_action db uid action reply = Inr (db1, r)"
  shows "one_battle_each db1"
proof -
  from assms(2) have "active_battles db1 = active_battles db"
    by (auto simp add: process_action_def purchase_branch_def Let_def add_item_def
        split: option.splits list.splits sum.splits if_splits prod.splits)
  then show ?thesis using assms(1) by (simp add: one_battle_each_def)
qed

lemma create_character_single:
  assumes "one_battle_each db" and "create_character db uid nm = Inr (db1, c)"
  shows "one_battle_each db1"
proof -
  from assms(2) have "active_battles db1 = active_battles db"
    by (auto simp add: create_character_def Let_def add_item_def split: sum.splits if_splits)
  then show ?thesis using assms(1) by (simp add: one_battle_each_def)
qed

text \<open>
  C10. When no two rows of \<open>active_battles\<close> have the same player (the primary key of the
  table), at most one enemy is stored for every player, and it stays so after saving a
  battle, clearing a battle, starting a battle, resolving an attack, an action and
  creating a character. After \<open>save_battle\<close> or \<open>start_battle\<close> the enemies stored for the
  player are exactly the new one, also when a battle was active before: the old enemy is
  replaced.
\<close>

theorem single_active_battle:
  assumes "one_battle_each db"
  shows "(\<forall>u. length (stored_enemies db u) \<le> 1) \<and>
     (\<forall>db1. save_battle db uid enemy = Inr db1 \<longrightarrow>
        one_battle_each db1 \<and> stored_enemies db1 uid = [enemy]) \<and>
     one_battle_each (clear_battle db uid) \<and>
     stored_enemies (clear_battle db uid) uid = [] \<and>
     (\<forall>db1 c e. start_battle db uid parsed = Inr (db1, c, e) \<longrightarrow>
        one_battle_each db1 \<and> stored_enemies db1 uid = [e]) \<and>
     (\<forall>db1 r. process_attack db uid action judged = Inr (db1, r) \<longrightarrow> one_battle_each db1) \<and>
     (\<forall>db1 r. process_action db uid action reply = Inr (db1, r) \<longrightarrow> one_battle_each db1) \<and>
     (\<forall>db1 c. create_character db uid nm = Inr (db1, c) \<longrightarrow> one_battle_each db1)"
proof -
  have "\<forall>u. length (stored_enemies db u) \<le> 1"
  proof
    fix u
    have "length (filter (\<lambda>r. fst r = u) (active_battles db)) \<le> 1"
      using assms unfolding one_battle_each_def by (rule distinct_filter_key)
    then show "length (stored_enemies db u) \<le> 1" by (simp add: stored_enemies_def)
  qed
  moreover have "\<forall>db1. save_battle db uid enemy = Inr db1 \<longrightarrow>
        one_battle_each db1 \<and> stored_enemies db1 uid = [enemy]"
    using save_battle_single [OF assms] by blast
  moreover have "\<forall>db1 c e. start_battle db uid parsed = Inr (db1, c, e) \<longrightarrow>
        one_battle_each db1 \<and> stored_enemies db1 uid = [e]"
    using start_battle_single [OF assms] by blast
  moreover have "\<forall>db1 r. process_attack db uid action judged = Inr (db1, r) \<longrightarrow>
        one_battle_each db1"
    using process_attack_single [OF assms] by blast
  moreover have "\<forall>db1 r. process_action db uid action reply = Inr (db1, r) \<longrightarrow>
        one_battle_each db1"
    using process_action_single [OF assms] by blast
  moreover have "\<forall>db1 c. create_character db uid nm = Inr (db1, c) \<longrightarrow> one_battle_each db1"
    using create_character_single [OF assms] by blast
  ultimately show ?thesis using clear_battle_single [OF assms, of uid] by blast
qed

theorem single_active_battle_witness:
  "one_battle_each battle_db \<and> stored_enemies battle_db 7 = [bandit] \<and>
   (\<exists>db1 e. start_battle battle_db 7 None = Inr (db1, veteran, e) \<and>
      Enemy.name e = wild_wolf \<and> stored_enemies db1 7 = [e])"
proof -
  have h: "one_battle_each battle_db" by (simp add: one_battle_each_def battle_db_def)
  have s: "stored_enemies battle_db 7 = [bandit]"
    by (simp add: stored_enemies_def battle_db_def)
  have "\<exists>db1 e. start_battle battle_db 7 None = Inr (db1, veteran, e) \<and>
      Enemy.name e = wild_wolf"
    by (simp add: start_battle_def battle_db_def veteran_def hero_def save_battle_def
        get_character_def new_Character_def generate_enemy_def Let_def)
  then obtain db1 e where sb: "start_battle battle_db 7 None = Inr (db1, veteran, e)"
    and n: "Enemy.name e = wild_wolf" by blast
  from single_active_battle [OF h, of 7 _ None] sb
  have "stored_enemies db1 7 = [e]" by blast
  then show ?thesis using h s sb n by blast
qed

end
